theory Spec2Isabelle
  imports Main "HOL-Library.Word" "HOL-Library.Multiset" "HOL-Library.Sublist"
begin

unbundle bit_operations_syntax

section \<open>Data model of openvas_hosts.c\<close>

text \<open>
  The enumeration \<^verbatim>\<open>enum host_type\<close> is declared in the header openvas_hosts.h; its
  enumerators are the indices of the table \<^verbatim>\<open>host_type_str\<close> at the top of the source.
  Where the source uses the integer \<^verbatim>\<open>-1\<close> beside an enumerator
  (\<^verbatim>\<open>determine_host_type\<close>), the model uses \<open>None\<close>.
\<close>

datatype host_type =
    HOST_TYPE_NAME
  | HOST_TYPE_IPV4
  | HOST_TYPE_IPV6
  | HOST_TYPE_CIDR_BLOCK
  | HOST_TYPE_RANGE_SHORT
  | HOST_TYPE_RANGE_LONG

text \<open>
  \<^verbatim>\<open>struct in_addr\<close> is its field \<^verbatim>\<open>s_addr\<close>: a 32-bit word that holds the four
  octets in network byte order. \<^verbatim>\<open>struct in6_addr\<close> is its sixteen octets.
\<close>

type_synonym in_addr = "32 word"
type_synonym in6_addr = "8 word list"

text \<open>
  \<^verbatim>\<open>openvas_host_t\<close>: the tag and the three members of the anonymous union. The source
  only ever reads the member that the tag selects; a member that was never written holds
  the zero bytes of \<^verbatim>\<open>g_malloc0\<close> (the null name is the empty string here).
\<close>

record openvas_host =
  type :: host_type
  name :: string
  addr :: in_addr
  addr6 :: in6_addr

text \<open>
  \<^verbatim>\<open>openvas_hosts_t\<close>. The list \<^verbatim>\<open>hosts\<close> is a GList; the pointer \<^verbatim>\<open>current\<close> into that
  list is the sublist that starts at the node it points to (the empty list is the null
  pointer). \<^verbatim>\<open>removed\<close> is an \<^verbatim>\<open>unsigned int\<close>.
\<close>

record openvas_hosts =
  orig_str :: string
  hosts :: "openvas_host list"
  current :: "openvas_host list"
  removed :: "32 word"

section \<open>Byte order\<close>

text \<open>
  \<^verbatim>\<open>htonl\<close> and \<^verbatim>\<open>ntohl\<close> on a little-endian host: both reverse the four octets of
  a 32-bit word.
\<close>

definition htonl :: "32 word \<Rightarrow> 32 word" where
  "htonl x = push_bit 24 (x AND 0xff) OR push_bit 8 (x AND 0xff00)
             OR (drop_bit 8 x AND 0xff00) OR drop_bit 24 x"

definition ntohl :: "32 word \<Rightarrow> 32 word" where
  "ntohl x = htonl x"

text \<open>The word that a little-endian host reads from four octets in memory.\<close>

definition s_addr_of_octets :: "nat list \<Rightarrow> in_addr" where
  "s_addr_of_octets bs =
     of_nat (bs ! 0 + 2 ^ 8 * bs ! 1 + 2 ^ 16 * bs ! 2 + 2 ^ 24 * bs ! 3)"

text \<open>The four octets in memory of a 32-bit word on a little-endian host.\<close>

definition octets_of_word :: "32 word \<Rightarrow> 8 word list" where
  "octets_of_word w =
     [ucast w, ucast (drop_bit 8 w), ucast (drop_bit 16 w), ucast (drop_bit 24 w)]"

section \<open>What the platform decides\<close>

text \<open>
  Two operations of the source have no result that the C language defines. The
  functions \<^verbatim>\<open>is_cidr_block\<close> and \<^verbatim>\<open>is_short_range_network\<close> call \<^verbatim>\<open>g_free\<close> on their
  copy of the string and read \<^verbatim>\<open>*p\<close> afterwards, where \<^verbatim>\<open>p\<close> points into that copy;
  and \<^verbatim>\<open>cidr_block_ips\<close> shifts by \<^verbatim>\<open>32 - block\<close>, which is the width of the type when
  \<^verbatim>\<open>block\<close> is 0. What they yield is decided by the allocator and by the processor, and
  the model takes it as a parameter:

  \<^item> \<open>freed_read block off\<close> is the byte that a read at the offset \<open>off\<close> of a block
    returns after \<^verbatim>\<open>g_free\<close>, where \<open>block\<close> is what the block held before;

  \<^item> \<open>wide_shift n\<close> is the value of \<^verbatim>\<open>1 << n\<close> for a count \<open>n\<close> of 32 or more.
\<close>

record platform =
  freed_read :: "string \<Rightarrow> nat \<Rightarrow> char"
  wide_shift :: "nat \<Rightarrow> 32 word"

text \<open>
  The bytes of the copy that \<^verbatim>\<open>g_strdup\<close> made, once the separator was overwritten
  with NUL: the string before the separator, NUL, the string after it, NUL.
\<close>

definition cut_copy :: "string \<Rightarrow> string \<Rightarrow> string" where
  "cut_copy before after = before @ CHR 0x00 # after @ [CHR 0x00]"

text \<open>
  A platform for the examples, after the GNU C library on x86-64. There \<^verbatim>\<open>free\<close>
  links a small block into a list through its first sixteen bytes and leaves the rest
  as it was; the bytes at the offsets 8 to 15 then hold a random key and are not NUL but
  in rare runs. The example gives each of the sixteen bytes the value 255. The source
  reads at the offset 9 at least: an IPv4 literal has seven characters or more, and the
  separator and a digit follow. The processor takes the count of a shift modulo 32.
\<close>

definition glibc_x86_64 :: platform where
  "glibc_x86_64 =
     \<lparr>freed_read = (\<lambda>block off. if off < 16 then CHR 0xFF
                      else if off < length block then block ! off else CHR 0x00),
      wide_shift = (\<lambda>n. push_bit (n mod 32) 1)\<rparr>"

text \<open>
  A second platform for the examples, on which a freed block keeps its bytes until it
  is allocated again.
\<close>

definition keeping_x86_64 :: platform where
  "keeping_x86_64 =
     \<lparr>freed_read = (\<lambda>block off. if off < length block then block ! off else CHR 0x00),
      wide_shift = (\<lambda>n. push_bit (n mod 32) 1)\<rparr>"

section \<open>The C library and GLib functions the source calls\<close>

subsection \<open>Character classes (C locale)\<close>

definition isdigit :: "char \<Rightarrow> bool" where
  "isdigit c = (48 \<le> (of_char c :: nat) \<and> (of_char c :: nat) \<le> 57)"

definition isalpha :: "char \<Rightarrow> bool" where
  "isalpha c = ((65 \<le> (of_char c :: nat) \<and> (of_char c :: nat) \<le> 90)
              \<or> (97 \<le> (of_char c :: nat) \<and> (of_char c :: nat) \<le> 122))"

definition isalnum :: "char \<Rightarrow> bool" where
  "isalnum c = (isalpha c \<or> isdigit c)"

text \<open>\<^verbatim>\<open>isspace\<close>: space, and the control characters 9 to 13.\<close>

definition isspace :: "char \<Rightarrow> bool" where
  "isspace c = ((of_char c :: nat) = 32 \<or> (9 \<le> (of_char c :: nat) \<and> (of_char c :: nat) \<le> 13))"

text \<open>\<^verbatim>\<open>g_ascii_isspace\<close>: as isspace, but for the vertical tab (11).\<close>

definition g_ascii_isspace :: "char \<Rightarrow> bool" where
  "g_ascii_isspace c = ((of_char c :: nat) \<in> {32, 9, 10, 12, 13})"

definition tolower :: "char \<Rightarrow> char" where
  "tolower c = (if 65 \<le> (of_char c :: nat) \<and> (of_char c :: nat) \<le> 90
                then char_of ((of_char c :: nat) + 32) else c)"

definition digit_val :: "char \<Rightarrow> nat" where
  "digit_val c = (of_char c :: nat) - 48"

text \<open>The value of a string of decimal digits.\<close>

definition dec_val :: "string \<Rightarrow> nat" where
  "dec_val ds = foldl (\<lambda>acc c. acc * 10 + digit_val c) 0 ds"

text \<open>The character a C string pointer points to: the terminating NUL at the end.\<close>

definition peek :: "string \<Rightarrow> char" where
  "peek s = (case s of [] \<Rightarrow> CHR 0x00 | c # _ \<Rightarrow> c)"

subsection \<open>strchr followed by cutting the string there\<close>

text \<open>
  The source copies the string, finds the first separator with \<^verbatim>\<open>strchr\<close>, overwrites it
  with NUL and steps over it: the two strings before and after the first separator, or
  \<open>None\<close> when \<^verbatim>\<open>strchr\<close> returns the null pointer.
\<close>

definition strchr_cut :: "char \<Rightarrow> string \<Rightarrow> (string \<times> string) option" where
  "strchr_cut c s =
     (if c \<in> set s then Some (takeWhile (\<lambda>x. x \<noteq> c) s, tl (dropWhile (\<lambda>x. x \<noteq> c) s))
      else None)"

subsection \<open>strtol and atoi, base 10\<close>

definition LONG_MAX :: int where
  "LONG_MAX = 2 ^ 63 - 1"

definition LONG_MIN :: int where
  "LONG_MIN = - (2 ^ 63)"

text \<open>
  \<^verbatim>\<open>strtol (s, &p, 10)\<close>: white space is skipped, then an optional sign, then the longest
  run of digits; the value is clamped to the range of \<^verbatim>\<open>long\<close>. The result is the value and
  the rest of the string (what \<^verbatim>\<open>p\<close> points to). Without a digit, the value is 0 and the
  rest is the whole string.
\<close>

definition strtol :: "string \<Rightarrow> int \<times> string" where
  "strtol s =
     (let s1 = dropWhile isspace s;
          neg = (peek s1 = CHR ''-'');
          s2 = (if peek s1 = CHR ''-'' \<or> peek s1 = CHR ''+'' then tl s1 else s1);
          ds = takeWhile isdigit s2;
          v = (if neg then - int (dec_val ds) else int (dec_val ds))
      in if ds = [] then (0, s)
         else (max LONG_MIN (min LONG_MAX v), dropWhile isdigit s2))"

text \<open>\<^verbatim>\<open>atoi\<close> is \<^verbatim>\<open>(int) strtol (s, NULL, 10)\<close>: the low 32 bits, read as signed.\<close>

definition atoi :: "string \<Rightarrow> int" where
  "atoi s = signed_take_bit 31 (fst (strtol s))"

subsection \<open>sscanf with the format of cidr_get_block\<close>

text \<open>
  \<^verbatim>\<open>sscanf (str, "%*[0-9.]/%2u", block)\<close>: a non-empty run of digits and dots (not
  stored), a slash, then an unsigned integer read from a field of at most two characters
  (after white space; a sign counts as a character of the field). The result is the
  stored value when \<^verbatim>\<open>sscanf\<close> returns 1, and \<open>None\<close> otherwise.
\<close>

definition sscanf_cidr :: "string \<Rightarrow> 32 word option" where
  "sscanf_cidr str =
     (let pre = takeWhile (\<lambda>c. isdigit c \<or> c = CHR ''.'') str;
          r1 = dropWhile (\<lambda>c. isdigit c \<or> c = CHR ''.'') str
      in if pre = [] \<or> peek r1 \<noteq> CHR ''/'' then None
         else
           (let field = take 2 (dropWhile isspace (tl r1));
                neg = (peek field = CHR ''-'');
                f2 = (if peek field = CHR ''-'' \<or> peek field = CHR ''+'' then tl field else field);
                ds = takeWhile isdigit f2
            in if ds = [] then None
               else Some (if neg then - of_nat (dec_val ds) else of_nat (dec_val ds))))"

subsection \<open>inet_pton\<close>

text \<open>
  \<^verbatim>\<open>inet_pton (AF_INET, src, dst)\<close>, as the C library's loop reads the string: four
  decimal numbers of at most 255 without a leading zero, separated by single dots. The
  state is whether the current octet has a digit, how many octets were started, the
  octets that are finished, and the value of the current one.
\<close>

fun inet_pton4_loop :: "string \<Rightarrow> bool \<Rightarrow> nat \<Rightarrow> nat list \<Rightarrow> nat \<Rightarrow> nat list option" where
  "inet_pton4_loop [] saw_digit octets done cur =
     (if octets < 4 then None else Some (done @ [cur]))"
| "inet_pton4_loop (ch # src) saw_digit octets done cur =
     (if isdigit ch then
        (let new = cur * 10 + digit_val ch in
         if saw_digit \<and> cur = 0 then None
         else if new > 255 then None
         else if \<not> saw_digit then
           (if octets + 1 > 4 then None else inet_pton4_loop src True (octets + 1) done new)
         else inet_pton4_loop src True octets done new)
      else if ch = CHR ''.'' \<and> saw_digit then
        (if octets = 4 then None else inet_pton4_loop src False octets (done @ [cur]) 0)
      else None)"

definition inet_pton4_octets :: "string \<Rightarrow> nat list option" where
  "inet_pton4_octets src = inet_pton4_loop src False 0 [] 0"

text \<open>The address stored at \<^verbatim>\<open>dst\<close> when the call returns 1; \<open>None\<close> when it returns 0.\<close>

definition inet_pton4 :: "string \<Rightarrow> in_addr option" where
  "inet_pton4 src = map_option s_addr_of_octets (inet_pton4_octets src)"

text \<open>
  \<^verbatim>\<open>inet_pton (AF_INET6, src, dst)\<close>, as the C library's loop reads the string. The state
  is the start of the current group (\<^verbatim>\<open>curtok\<close>), the number of hexadecimal digits
  seen in it (at most four), its value, the octets written so far (\<^verbatim>\<open>tp\<close>) and the
  position of a double colon (\<^verbatim>\<open>colonp\<close>). Hexadecimal digits are read in either case.
\<close>

definition xdigit_val :: "char \<Rightarrow> nat option" where
  "xdigit_val ch =
     (if isdigit ch then Some (digit_val ch)
      else if 97 \<le> (of_char ch :: nat) \<and> (of_char ch :: nat) \<le> 102
        then Some ((of_char ch :: nat) - 87)
      else None)"

definition inet_pton6_finish :: "nat \<Rightarrow> nat \<Rightarrow> nat list \<Rightarrow> nat option \<Rightarrow> nat list option" where
  "inet_pton6_finish xdigits_seen val tp colonp =
     (if xdigits_seen > 0 \<and> length tp + 2 > 16 then None
      else
        (let tp1 = (if xdigits_seen > 0 then tp @ [val div 256, val mod 256] else tp) in
         case colonp of
           Some k \<Rightarrow>
             (if length tp1 = 16 then None
              else Some (take k tp1 @ replicate (16 - length tp1) 0 @ drop k tp1))
         | None \<Rightarrow> (if length tp1 \<noteq> 16 then None else Some tp1)))"

fun inet_pton6_loop ::
  "string \<Rightarrow> string \<Rightarrow> nat \<Rightarrow> nat \<Rightarrow> nat list \<Rightarrow> nat option \<Rightarrow> nat list option" where
  "inet_pton6_loop [] curtok xdigits_seen val tp colonp =
     inet_pton6_finish xdigits_seen val tp colonp"
| "inet_pton6_loop (c # src) curtok xdigits_seen val tp colonp =
     (case xdigit_val (tolower c) of
        Some d \<Rightarrow>
          (if xdigits_seen = 4 then None
           else if val * 16 + d > 0xffff then None
           else inet_pton6_loop src curtok (xdigits_seen + 1) (val * 16 + d) tp colonp)
      | None \<Rightarrow>
          (if c = CHR '':'' then
             (if xdigits_seen = 0 then
                (if colonp \<noteq> None then None
                 else inet_pton6_loop src src xdigits_seen val tp (Some (length tp)))
              else if src = [] then None
              else if length tp + 2 > 16 then None
              else inet_pton6_loop src src 0 0 (tp @ [val div 256, val mod 256]) colonp)
           else if c = CHR ''.'' \<and> length tp + 4 \<le> 16 then
             (case inet_pton4_octets curtok of
                Some bs \<Rightarrow> inet_pton6_finish 0 val (tp @ bs) colonp
              | None \<Rightarrow> None)
           else None))"

definition inet_pton6 :: "string \<Rightarrow> in6_addr option" where
  "inet_pton6 src =
     (if peek src = CHR '':'' \<and> peek (tl src) \<noteq> CHR '':'' then None
      else
        (let src1 = (if peek src = CHR '':'' then tl src else src) in
         map_option (map of_nat) (inet_pton6_loop src1 src1 0 0 [] None)))"

subsection \<open>GLib strings and lists\<close>

text \<open>
  \<^verbatim>\<open>g_strsplit (string, ",", 0)\<close>: the pieces between the delimiters, empty pieces
  included; the empty string has no piece at all.
\<close>

fun strsplit_pieces :: "char \<Rightarrow> string \<Rightarrow> string list" where
  "strsplit_pieces d [] = [[]]"
| "strsplit_pieces d (c # cs) =
     (if c = d then [] # strsplit_pieces d cs
      else (case strsplit_pieces d cs of [] \<Rightarrow> [[c]] | p # ps \<Rightarrow> (c # p) # ps))"

definition g_strsplit :: "string \<Rightarrow> char \<Rightarrow> string list" where
  "g_strsplit s d = (if s = [] then [] else strsplit_pieces d s)"

text \<open>\<^verbatim>\<open>g_strstrip\<close> is \<^verbatim>\<open>g_strchomp (g_strchug (string))\<close>.\<close>

definition g_strchug :: "string \<Rightarrow> string" where
  "g_strchug s = dropWhile g_ascii_isspace s"

definition g_strchomp :: "string \<Rightarrow> string" where
  "g_strchomp s = rev (dropWhile g_ascii_isspace (rev s))"

definition g_strstrip :: "string \<Rightarrow> string" where
  "g_strstrip s = g_strchomp (g_strchug s)"

definition g_list_prepend :: "'a list \<Rightarrow> 'a \<Rightarrow> 'a list" where
  "g_list_prepend l x = x # l"

definition g_list_reverse :: "'a list \<Rightarrow> 'a list" where
  "g_list_reverse l = rev l"

text \<open>\<^verbatim>\<open>g_list_nth\<close>: the node at a position, the null pointer off the end.\<close>

definition g_list_nth :: "'a list \<Rightarrow> nat \<Rightarrow> 'a option" where
  "g_list_nth l n = (if n < length l then Some (l ! n) else None)"

text \<open>\<^verbatim>\<open>g_list_remove_link\<close> of the node at a position.\<close>

definition g_list_remove_link_at :: "'a list \<Rightarrow> nat \<Rightarrow> 'a list" where
  "g_list_remove_link_at l n = take n l @ drop (Suc n) l"

text \<open>
  A \<^verbatim>\<open>GRand\<close> is the sequence of the raw numbers it will still produce.
  \<^verbatim>\<open>g_rand_int_range (rand, begin, end)\<close> returns a number in \<^verbatim>\<open>[begin, end)\<close> and
  advances the generator.
\<close>

type_synonym GRand = "nat \<Rightarrow> nat"

definition g_rand_int_range :: "GRand \<Rightarrow> nat \<Rightarrow> nat \<Rightarrow> nat \<times> GRand" where
  "g_rand_int_range rand begin end' =
     (begin + rand 0 mod (end' - begin), \<lambda>i. rand (Suc i))"

section \<open>Address predicates and the token classifier\<close>

definition is_ipv4_address :: "string \<Rightarrow> bool" where
  "is_ipv4_address str = (inet_pton4 str \<noteq> None)"

definition is_ipv6_address :: "string \<Rightarrow> bool" where
  "is_ipv6_address str = (inet_pton6 str \<noteq> None)"

text \<open>
  \<^verbatim>\<open>is_cidr_block\<close>. The pointer \<^verbatim>\<open>p\<close> that \<^verbatim>\<open>strtol\<close> stores points into the copy
  \<^verbatim>\<open>addr_str\<close>, at the offset of the first character after the digits. The source calls
  \<^verbatim>\<open>g_free (addr_str)\<close> and tests \<^verbatim>\<open>*p\<close> after that: the byte \<open>at_p\<close> is read from
  the freed block.
\<close>

definition is_cidr_block :: "platform \<Rightarrow> string \<Rightarrow> bool" where
  "is_cidr_block pf str =
     (case strchr_cut CHR ''/'' str of
        None \<Rightarrow> False
      | Some (addr_str, block_str) \<Rightarrow>
          (if \<not> is_ipv4_address addr_str \<or> \<not> isdigit (peek block_str) then False
           else
             (case strtol block_str of
                (block, p) \<Rightarrow>
                  (let at_p = freed_read pf (cut_copy addr_str block_str)
                                (length addr_str + 1 + (length block_str - length p))
                   in if at_p \<noteq> CHR 0x00 \<or> block \<le> 0 \<or> block > 30 then False else True))))"

definition cidr_get_block :: "string \<Rightarrow> 32 word option" where
  "cidr_get_block str = sscanf_cidr str"

definition cidr_get_ip :: "string \<Rightarrow> in_addr option" where
  "cidr_get_ip str =
     (case strchr_cut CHR ''/'' str of
        None \<Rightarrow> None
      | Some (addr_str, tmp) \<Rightarrow> inet_pton4 addr_str)"

text \<open>
  \<^verbatim>\<open>1 << (32 - block)\<close>, in 32 bits. The subtraction is unsigned, so the count is
  below 32 for the block values 1 to 32 only. The block value 0 is one that
  \<^verbatim>\<open>cidr_get_block\<close> can store for a token that \<^verbatim>\<open>is_cidr_block\<close> accepts (the suffix
  \<^verbatim>\<open>0024\<close> is 24 for \<^verbatim>\<open>strtol\<close> and 0 for \<^verbatim>\<open>%2u\<close>); the count is 32 then, C leaves the
  shift undefined, and the value is the platform's.
\<close>

definition shl1 :: "platform \<Rightarrow> 32 word \<Rightarrow> 32 word" where
  "shl1 pf block =
     (if unat (32 - block) < 32 then push_bit (unat (32 - block)) 1
      else wide_shift pf (unat (32 - block)))"

definition cidr_block_ips :: "platform \<Rightarrow> string \<Rightarrow> (in_addr \<times> in_addr) option" where
  "cidr_block_ips pf str =
     (case cidr_get_block str of
        None \<Rightarrow> None
      | Some block \<Rightarrow>
          (case cidr_get_ip str of
             None \<Rightarrow> None
           | Some first0 \<Rightarrow>
               (let first1 = first0 AND htonl (0xffffffff XOR (shl1 pf block - 1));
                    first = htonl (ntohl first1 + 1);
                    last' = htonl (ntohl first + shl1 pf block - 3)
                in Some (first, last'))))"

definition is_long_range_network :: "string \<Rightarrow> bool" where
  "is_long_range_network str =
     (case strchr_cut CHR ''-'' str of
        None \<Rightarrow> False
      | Some (first_str, second_str) \<Rightarrow> is_ipv4_address first_str \<and> is_ipv4_address second_str)"

definition long_range_network_ips :: "string \<Rightarrow> (in_addr \<times> in_addr) option" where
  "long_range_network_ips str =
     (case strchr_cut CHR ''-'' str of
        None \<Rightarrow> None
      | Some (first_str, last_str) \<Rightarrow>
          (case inet_pton4 first_str of
             None \<Rightarrow> None
           | Some first \<Rightarrow>
               (case inet_pton4 last_str of
                  None \<Rightarrow> None
                | Some last' \<Rightarrow> Some (first, last'))))"

text \<open>
  \<^verbatim>\<open>is_short_range_network\<close>. As in \<^verbatim>\<open>is_cidr_block\<close>, the source calls
  \<^verbatim>\<open>g_free (ip_str)\<close> before it tests \<^verbatim>\<open>*p\<close>, and \<^verbatim>\<open>p\<close> points into that copy.
\<close>

definition is_short_range_network :: "platform \<Rightarrow> string \<Rightarrow> bool" where
  "is_short_range_network pf str =
     (case strchr_cut CHR ''-'' str of
        None \<Rightarrow> False
      | Some (ip_str, end_str) \<Rightarrow>
          (if \<not> is_ipv4_address ip_str \<or> \<not> isdigit (peek end_str) then False
           else
             (case strtol end_str of
                (end', p) \<Rightarrow>
                  (let at_p = freed_read pf (cut_copy ip_str end_str)
                                (length ip_str + 1 + (length end_str - length p))
                   in if at_p \<noteq> CHR 0x00 \<or> end' < 0 \<or> end' > 255 then False else True))))"

definition short_range_network_ips :: "string \<Rightarrow> (in_addr \<times> in_addr) option" where
  "short_range_network_ips str =
     (case strchr_cut CHR ''-'' str of
        None \<Rightarrow> None
      | Some (first_str, last_str) \<Rightarrow>
          (let end' = atoi last_str in
           case inet_pton4 first_str of
             None \<Rightarrow> None
           | Some first \<Rightarrow> Some (first, htonl ((ntohl first AND 0xffffff00) + word_of_int end'))))"

text \<open>
  \<^verbatim>\<open>is_hostname\<close>: the pointer \<^verbatim>\<open>h\<close> runs over the leading characters that are
  alphanumeric or one of \<^verbatim>\<open>-_.\<close>; the string is a host name when that is the whole
  string and fewer than 256 characters.
\<close>

definition hostname_char :: "char \<Rightarrow> bool" where
  "hostname_char c = (isalnum c \<or> c \<in> set ''-_.'')"

definition is_hostname :: "string \<Rightarrow> bool" where
  "is_hostname str =
     (dropWhile hostname_char str = [] \<and> length (takeWhile hostname_char str) < 256)"

text \<open>
  \<^verbatim>\<open>determine_host_type\<close>. Its argument is never the null pointer (it is the result of
  \<^verbatim>\<open>g_strstrip\<close>), so the model takes a string; \<open>None\<close> is the result \<^verbatim>\<open>-1\<close>.
\<close>

definition determine_host_type :: "platform \<Rightarrow> string \<Rightarrow> host_type option" where
  "determine_host_type pf str_stripped =
     (if str_stripped = [] then None
      else if is_ipv4_address str_stripped then Some HOST_TYPE_IPV4
      else if is_ipv6_address str_stripped then Some HOST_TYPE_IPV6
      else if is_cidr_block pf str_stripped then Some HOST_TYPE_CIDR_BLOCK
      else if is_short_range_network pf str_stripped then Some HOST_TYPE_RANGE_SHORT
      else if is_long_range_network str_stripped then Some HOST_TYPE_RANGE_LONG
      else if is_hostname str_stripped then Some HOST_TYPE_NAME
      else None)"

section \<open>Host entries\<close>

text \<open>\<^verbatim>\<open>openvas_host_new\<close>: the zeroed structure of \<^verbatim>\<open>g_malloc0\<close>.\<close>

definition openvas_host_new :: openvas_host where
  "openvas_host_new =
     \<lparr>type = HOST_TYPE_NAME, name = [], addr = 0, addr6 = replicate 16 0\<rparr>"

text \<open>\<^verbatim>\<open>openvas_host_equal\<close>; \<open>None\<close> is the null pointer.\<close>

definition openvas_host_equal :: "openvas_host option \<Rightarrow> openvas_host option \<Rightarrow> bool" where
  "openvas_host_equal host host2 =
     (case (host, host2) of
        (Some h, Some h2) \<Rightarrow>
          (if type h \<noteq> type h2 then False
           else if type h = HOST_TYPE_IPV4 then addr h = addr h2
           else if type h = HOST_TYPE_IPV6 then addr6 h = addr6 h2
           else if type h = HOST_TYPE_NAME then name h = name h2
           else False)
      | _ \<Rightarrow> False)"

section \<open>Removing duplicates\<close>

text \<open>
  The inner loop of \<^verbatim>\<open>openvas_hosts_remove_duplicates\<close>: \<^verbatim>\<open>next\<close> runs from the node
  after \<^verbatim>\<open>element\<close> to the end of the list; a node whose host equals \<^verbatim>\<open>host\<close> is
  unlinked and \<^verbatim>\<open>removed\<close> is incremented. The result is the list after \<^verbatim>\<open>element\<close>
  and the counter.
\<close>

fun remove_duplicates_of :: "openvas_host \<Rightarrow> openvas_host list \<Rightarrow> 32 word \<Rightarrow> openvas_host list \<times> 32 word" where
  "remove_duplicates_of host [] r = ([], r)"
| "remove_duplicates_of host (host2 # nxt) r =
     (if openvas_host_equal (Some host) (Some host2) then remove_duplicates_of host nxt (r + 1)
      else (case remove_duplicates_of host nxt r of (l, r') \<Rightarrow> (host2 # l, r')))"

lemma length_remove_duplicates_of:
  "length (fst (remove_duplicates_of host l r)) \<le> length l"
proof (induction l arbitrary: r)
  case Nil
  show ?case by simp
next
  case (Cons host2 nxt)
  have "length (fst (remove_duplicates_of host nxt (r + 1))) \<le> length nxt"
    and "length (fst (remove_duplicates_of host nxt r)) \<le> length nxt"
    using Cons.IH by blast+
  then show ?case by (simp add: split_beta)
qed

text \<open>
  The outer loop: \<^verbatim>\<open>element\<close> runs over the list as the inner loop leaves it. The
  result is the list from \<^verbatim>\<open>element\<close> on, and the counter.
\<close>

function remove_duplicates_from :: "openvas_host list \<Rightarrow> 32 word \<Rightarrow> openvas_host list \<times> 32 word" where
  "remove_duplicates_from [] r = ([], r)"
| "remove_duplicates_from (host # nxt) r =
     (case remove_duplicates_of host nxt r of
        (l, r') \<Rightarrow> (case remove_duplicates_from l r' of (l', r'') \<Rightarrow> (host # l', r'')))"
  by pat_completeness auto
termination
  by (relation "measure (\<lambda>p. length (fst p))")
     (simp_all add: less_Suc_eq_le length_remove_duplicates_of)

definition openvas_hosts_remove_duplicates :: "openvas_hosts \<Rightarrow> openvas_hosts" where
  "openvas_hosts_remove_duplicates h =
     (case remove_duplicates_from (hosts h) (removed h) of
        (l, r) \<Rightarrow> h\<lparr>hosts := l, removed := r, current := l\<rparr>)"

section \<open>Building the collection\<close>

text \<open>
  The loop that adds the addresses from \<^verbatim>\<open>first\<close> to \<^verbatim>\<open>last\<close>. When \<^verbatim>\<open>last\<close> is
  255.255.255.255 the 32-bit counter wraps around and the loop never ends, so the
  function is partial: \<open>None\<close> is a run that does not return.
\<close>

partial_function (option) add_range :: "in_addr \<Rightarrow> in_addr \<Rightarrow> openvas_host list \<Rightarrow> openvas_host list option" where
  "add_range current' last' l =
     (if ntohl current' \<le> ntohl last'
      then add_range (htonl (ntohl current' + 1)) last'
             (g_list_prepend l (openvas_host_new\<lparr>type := HOST_TYPE_IPV4, addr := current'\<rparr>))
      else Some l)"

text \<open>The host of the first branch of the switch (a name or a single address).\<close>

definition single_host :: "host_type \<Rightarrow> string \<Rightarrow> openvas_host" where
  "single_host host_type stripped =
     (let host = openvas_host_new\<lparr>type := host_type\<rparr> in
      if host_type = HOST_TYPE_NAME then host\<lparr>name := stripped\<rparr>
      else if host_type = HOST_TYPE_IPV4 then
        (case inet_pton4 stripped of Some a \<Rightarrow> host\<lparr>addr := a\<rparr> | None \<Rightarrow> host)
      else if host_type = HOST_TYPE_IPV6 then
        (case inet_pton6 stripped of Some a \<Rightarrow> host\<lparr>addr6 := a\<rparr> | None \<Rightarrow> host)
      else host)"

text \<open>The function that the second branch of the switch selects.\<close>

definition ips_func :: "platform \<Rightarrow> host_type \<Rightarrow> string \<Rightarrow> (in_addr \<times> in_addr) option" where
  "ips_func pf host_type =
     (if host_type = HOST_TYPE_CIDR_BLOCK then cidr_block_ips pf
      else if host_type = HOST_TYPE_RANGE_SHORT then short_range_network_ips
      else long_range_network_ips)"

text \<open>
  One round of the loop over the pieces of the split string. The state is the
  collection and the lines written to \<^verbatim>\<open>stderr\<close> so far.
\<close>

definition hosts_new_element :: "platform \<Rightarrow> string \<Rightarrow> openvas_hosts \<times> string list \<Rightarrow> (openvas_hosts \<times> string list) option" where
  "hosts_new_element pf host_element st =
     (case st of (h, err) \<Rightarrow>
       (let stripped = g_strstrip host_element in
        if stripped = [] then Some (h, err)
        else
          (case determine_host_type pf stripped of
             None \<Rightarrow>
               Some (h\<lparr>removed := removed h + 1\<rparr>,
                     err @ [''ERROR - '' @ stripped @ '': Invalid host string.'' @ [CHR 0x0A]])
           | Some host_type \<Rightarrow>
               (if host_type \<in> {HOST_TYPE_NAME, HOST_TYPE_IPV4, HOST_TYPE_IPV6} then
                  Some (h\<lparr>hosts := g_list_prepend (hosts h) (single_host host_type stripped)\<rparr>, err)
                else
                  (case ips_func pf host_type stripped of
                     None \<Rightarrow> Some (h, err)
                   | Some (first, last') \<Rightarrow>
                       (if ntohl first > ntohl last' then
                          Some (h, err @ [''ERROR - '' @ stripped @ '': Inversed limits.'' @ [CHR 0x0A]])
                        else
                          (case add_range first last' (hosts h) of
                             None \<Rightarrow> None
                           | Some l \<Rightarrow> Some (h\<lparr>hosts := l\<rparr>, err))))))))"

fun hosts_new_loop :: "platform \<Rightarrow> string list \<Rightarrow> openvas_hosts \<times> string list \<Rightarrow> (openvas_hosts \<times> string list) option" where
  "hosts_new_loop pf [] st = Some st"
| "hosts_new_loop pf (host_element # split) st =
     (case hosts_new_element pf host_element st of
        None \<Rightarrow> None
      | Some st' \<Rightarrow> hosts_new_loop pf split st')"

text \<open>
  \<^verbatim>\<open>openvas_hosts_new\<close>, on a platform. The argument \<open>None\<close> is the null pointer. The result is \<open>None\<close>
  when the call does not return; otherwise it is the pointer returned (\<open>None\<close> for the
  null pointer) and the lines written to \<^verbatim>\<open>stderr\<close>. Allocation is taken to succeed.
\<close>

definition openvas_hosts_new :: "platform \<Rightarrow> string option \<Rightarrow> (openvas_hosts option \<times> string list) option" where
  "openvas_hosts_new pf hosts_str =
     (case hosts_str of
        None \<Rightarrow> Some (None, [])
      | Some str \<Rightarrow>
          (let orig = map (\<lambda>c. if c = CHR 0x0A then CHR '','' else c) str;
               h0 = \<lparr>orig_str = orig, hosts = [], current = [], removed = 0\<rparr>
           in case hosts_new_loop pf (g_strsplit orig CHR '','') (h0, []) of
                None \<Rightarrow> None
              | Some (h1, err) \<Rightarrow>
                  (let h2 = openvas_hosts_remove_duplicates (h1\<lparr>hosts := g_list_reverse (hosts h1)\<rparr>)
                   in Some (Some (h2\<lparr>current := hosts h2\<rparr>), err))))"

section \<open>Iteration, shuffling and the accessors\<close>

text \<open>\<^verbatim>\<open>openvas_hosts_next\<close>: the host returned and the collection afterwards.\<close>

definition openvas_hosts_next :: "openvas_hosts option \<Rightarrow> openvas_host option \<times> openvas_hosts option" where
  "openvas_hosts_next hs =
     (case hs of
        None \<Rightarrow> (None, None)
      | Some h \<Rightarrow>
          (case current h of
             [] \<Rightarrow> (None, Some h)
           | nxt # rest \<Rightarrow> (Some nxt, Some (h\<lparr>current := rest\<rparr>))))"

text \<open>
  \<^verbatim>\<open>openvas_hosts_count\<close>: \<^verbatim>\<open>g_list_length\<close> of the list (the number of entries is taken
  to fit \<^verbatim>\<open>unsigned int\<close>).
\<close>

definition openvas_hosts_count :: "openvas_hosts option \<Rightarrow> nat" where
  "openvas_hosts_count hs = (case hs of Some h \<Rightarrow> length (hosts h) | None \<Rightarrow> 0)"

definition openvas_hosts_removed :: "openvas_hosts option \<Rightarrow> 32 word" where
  "openvas_hosts_removed hs = (case hs of Some h \<Rightarrow> removed h | None \<Rightarrow> 0)"

text \<open>\<^verbatim>\<open>openvas_host_type\<close>: \<open>None\<close> is the result \<^verbatim>\<open>-1\<close>.\<close>

definition openvas_host_type :: "openvas_host option \<Rightarrow> host_type option" where
  "openvas_host_type host = (case host of Some h \<Rightarrow> Some (type h) | None \<Rightarrow> None)"

text \<open>
  The loop of \<^verbatim>\<open>openvas_hosts_shuffle\<close>, by the value of \<^verbatim>\<open>count\<close>: the list that is
  left and the new list.
\<close>

fun shuffle_loop :: "nat \<Rightarrow> GRand \<Rightarrow> openvas_host list \<Rightarrow> openvas_host list \<Rightarrow> openvas_host list \<times> openvas_host list" where
  "shuffle_loop 0 rand l new_list = (l, new_list)"
| "shuffle_loop (Suc n) rand l new_list =
     (case g_rand_int_range rand 0 (Suc n) of
        (i, rand') \<Rightarrow>
          (case g_list_nth l i of
             None \<Rightarrow> shuffle_loop n rand' l new_list
           | Some element \<Rightarrow> shuffle_loop n rand' (g_list_remove_link_at l i) (element # new_list)))"

definition openvas_hosts_shuffle :: "GRand \<Rightarrow> openvas_hosts \<Rightarrow> openvas_hosts" where
  "openvas_hosts_shuffle rand h =
     (case shuffle_loop (openvas_hosts_count (Some h)) rand (hosts h) [] of
        (l, new_list) \<Rightarrow> h\<lparr>hosts := new_list, current := new_list\<rparr>)"

section \<open>Printable value, name resolution and the IPv6 view\<close>

definition AF_INET :: int where
  "AF_INET = 2"

definition AF_INET6 :: int where
  "AF_INET6 = 10"

text \<open>
  \<^verbatim>\<open>openvas_host_value_str\<close>. The C library's \<^verbatim>\<open>inet_ntop\<close> is a parameter: from the
  family and the octets of the address to the string, or \<open>None\<close> when it fails.
\<close>

definition openvas_host_value_str :: "(int \<Rightarrow> 8 word list \<Rightarrow> string option) \<Rightarrow> openvas_host option \<Rightarrow> string option" where
  "openvas_host_value_str inet_ntop host =
     (case host of
        None \<Rightarrow> None
      | Some h \<Rightarrow>
          (if type h = HOST_TYPE_NAME then Some (name h)
           else if type h = HOST_TYPE_IPV4 \<or> type h = HOST_TYPE_IPV6 then
             (if type h = HOST_TYPE_IPV4 then inet_ntop AF_INET (octets_of_word (addr h))
              else inet_ntop AF_INET6 (addr6 h))
           else Some ''Erroneous host type: Should be Hostname/IPv4/IPv6.''))"

text \<open>
  One node of the list that \<^verbatim>\<open>getaddrinfo\<close> returns: its family, and the address in
  its socket address (\<^verbatim>\<open>sin_addr\<close> or \<^verbatim>\<open>sin6_addr\<close>).
\<close>

record addrinfo =
  ai_family :: int
  ai_addr :: "8 word list"

text \<open>The loop over the list: the address of the first node of the family.\<close>

fun first_of_family :: "int \<Rightarrow> addrinfo list \<Rightarrow> 8 word list option" where
  "first_of_family family [] = None"
| "first_of_family family (p # ai_next) =
     (if ai_family p = family then Some (ai_addr p) else first_of_family family ai_next)"

text \<open>
  \<^verbatim>\<open>openvas_host_resolve\<close>. The resolver is a parameter: \<^verbatim>\<open>getaddrinfo\<close> maps the name
  and the family of the hints to its return value and the list it stores. The buffer
  \<^verbatim>\<open>dst\<close> is \<open>None\<close> for the null pointer and its contents otherwise. The result is the
  return value and the buffer afterwards.
\<close>

definition openvas_host_resolve ::
  "(string \<Rightarrow> int \<Rightarrow> int \<times> addrinfo list) \<Rightarrow> openvas_host option \<Rightarrow> 8 word list option \<Rightarrow> int
     \<Rightarrow> int \<times> 8 word list option" where
  "openvas_host_resolve getaddrinfo host dst family =
     (case host of
        None \<Rightarrow> (0, dst)
      | Some h \<Rightarrow>
          (if dst = None \<or> type h \<noteq> HOST_TYPE_NAME \<or> (family \<noteq> AF_INET \<and> family \<noteq> AF_INET6)
           then (0, dst)
           else
             (case getaddrinfo (name h) family of
                (rc, info) \<Rightarrow>
                  (if rc \<noteq> 0 then (- 1, dst)
                   else
                     (case first_of_family family info of
                        Some a \<Rightarrow> (0, Some a)
                      | None \<Rightarrow> (0, dst))))))"



section \<open>Successive calls of the iterator\<close>

text \<open>The results of \<open>n\<close> successive calls of \<^verbatim>\<open>openvas_hosts_next\<close>.\<close>

fun next_results :: "nat \<Rightarrow> openvas_hosts option \<Rightarrow> openvas_host option list" where
  "next_results 0 hs = []"
| "next_results (Suc n) hs =
     (case openvas_hosts_next hs of (r, hs') \<Rightarrow> r # next_results n hs')"

section \<open>Definitions that follow the specification's words\<close>

text \<open>
  An IPv4 entry, as the expansion of a range or block creates it.
\<close>

definition ipv4_host :: "in_addr \<Rightarrow> openvas_host" where
  "ipv4_host a = openvas_host_new\<lparr>type := HOST_TYPE_IPV4, addr := a\<rparr>"

text \<open>
  Specification 4.5, first occurrence wins: scanning from the left, an entry survives
  unless an entry before it in the input equals it. \<open>seen\<close> holds the entries before.
\<close>

definition equal_to_earlier :: "openvas_host list \<Rightarrow> openvas_host \<Rightarrow> bool" where
  "equal_to_earlier seen x = list_ex (\<lambda>s. openvas_host_equal (Some s) (Some x)) seen"

fun first_occurrences :: "openvas_host list \<Rightarrow> openvas_host list \<Rightarrow> openvas_host list" where
  "first_occurrences seen [] = []"
| "first_occurrences seen (x # xs) =
     (if equal_to_earlier seen x then first_occurrences (seen @ [x]) xs
      else x # first_occurrences (seen @ [x]) xs)"

text \<open>
  Specification 4.3: every address from \<open>first\<close> to \<open>last\<close> inclusive, in ascending
  numeric order (host byte order), as IPv4 entries.
\<close>

definition ascending_hosts :: "in_addr \<Rightarrow> in_addr \<Rightarrow> openvas_host list" where
  "ascending_hosts first last' =
     map (\<lambda>k. ipv4_host (htonl (of_nat k))) [unat (ntohl first) ..< Suc (unat (ntohl last'))]"

text \<open>
  Specification 4.4: what one piece of the split string contributes. Nothing for an
  empty piece, an invalid token, a range whose limits cannot be computed or are
  inverted; one entry for a name or an address; the ascending run for a range or block.
\<close>

definition token_entries :: "platform \<Rightarrow> string \<Rightarrow> openvas_host list" where
  "token_entries pf host_element =
     (let stripped = g_strstrip host_element in
      if stripped = [] then []
      else
        (case determine_host_type pf stripped of
           None \<Rightarrow> []
         | Some host_type \<Rightarrow>
             (if host_type \<in> {HOST_TYPE_NAME, HOST_TYPE_IPV4, HOST_TYPE_IPV6}
              then [single_host host_type stripped]
              else
                (case ips_func pf host_type stripped of
                   None \<Rightarrow> []
                 | Some (first, last') \<Rightarrow>
                     (if ntohl first > ntohl last' then [] else ascending_hosts first last')))))"

text \<open>The pieces of a host specification, in the order of the scan.\<close>

definition tokens_of :: "string \<Rightarrow> string list" where
  "tokens_of str = g_strsplit (map (\<lambda>c. if c = CHR 0x0A then CHR '','' else c) str) CHR '',''"

definition spec_entries :: "platform \<Rightarrow> string \<Rightarrow> openvas_host list" where
  "spec_entries pf str = concat (map (token_entries pf) (tokens_of str))"

text \<open>
  A piece is a range or block that ends at 255.255.255.255: the loop of \<open>add_range\<close>
  does not end on it.
\<close>

definition ends_at_max :: "platform \<Rightarrow> string \<Rightarrow> bool" where
  "ends_at_max pf host_element =
     (let stripped = g_strstrip host_element in
      stripped \<noteq> [] \<and>
      (case determine_host_type pf stripped of
         None \<Rightarrow> False
       | Some host_type \<Rightarrow>
           host_type \<notin> {HOST_TYPE_NAME, HOST_TYPE_IPV4, HOST_TYPE_IPV6} \<and>
           (case ips_func pf host_type stripped of
              None \<Rightarrow> False
            | Some (first, last') \<Rightarrow> ntohl last' = - 1)))"

text \<open>
  Specification 6: a piece that is not empty and that the classifier does not recognise
  is counted as rejected, and it writes one line; a range with inverted limits writes
  one line.
\<close>

definition token_invalid :: "platform \<Rightarrow> string \<Rightarrow> bool" where
  "token_invalid pf host_element =
     (g_strstrip host_element \<noteq> [] \<and> determine_host_type pf (g_strstrip host_element) = None)"

definition token_diagnostics :: "platform \<Rightarrow> string \<Rightarrow> string list" where
  "token_diagnostics pf host_element =
     (let stripped = g_strstrip host_element in
      if stripped = [] then []
      else
        (case determine_host_type pf stripped of
           None \<Rightarrow> [''ERROR - '' @ stripped @ '': Invalid host string.'' @ [CHR 0x0A]]
         | Some host_type \<Rightarrow>
             (if host_type \<in> {HOST_TYPE_NAME, HOST_TYPE_IPV4, HOST_TYPE_IPV6} then []
              else
                (case ips_func pf host_type stripped of
                   None \<Rightarrow> []
                 | Some (first, last') \<Rightarrow>
                     (if ntohl first > ntohl last'
                      then [''ERROR - '' @ stripped @ '': Inversed limits.'' @ [CHR 0x0A]]
                      else [])))))"

text \<open>Specification 4.3: the mask of a prefix length, \<open>p\<close> leading one bits.\<close>

definition cidr_mask :: "nat \<Rightarrow> 32 word" where
  "cidr_mask p = NOT (mask (32 - p))"

text \<open>
  Specification 4.3, the expansion of the block \<open>A/p\<close>: with the network address
  \<open>N = A & mask(p)\<close>, the addresses \<open>N + 1\<close> to \<open>N + 2^(32-p) - 2\<close> in ascending order.
\<close>

definition cidr_entries :: "in_addr \<Rightarrow> nat \<Rightarrow> openvas_host list" where
  "cidr_entries A p =
     map (\<lambda>k. ipv4_host (htonl ((ntohl A AND cidr_mask p) + of_nat k))) [1 ..< 2 ^ (32 - p) - 1]"

text \<open>No two entries of a list are equal (\<^verbatim>\<open>openvas_host_equal\<close>).\<close>

fun no_duplicates :: "openvas_host list \<Rightarrow> bool" where
  "no_duplicates [] = True"
| "no_duplicates (x # xs) =
     (list_all (\<lambda>y. \<not> openvas_host_equal (Some x) (Some y)) xs \<and> no_duplicates xs)"

section \<open>Byte order: lemmas\<close>

lemma mask_ff: "(0xff::32 word) = mask 8"
  by (simp add: mask_eq_exp_minus_1)

lemma mask_ff00: "(0xff00::32 word) = push_bit 8 (mask 8)"
  by (simp add: mask_eq_exp_minus_1 push_bit_eq_mult)

lemma htonl_bit:
  "bit (htonl x) n \<longleftrightarrow>
     n < 32 \<and> bit x (if n < 8 then n + 24 else if n < 16 then n + 8
                      else if n < 24 then n - 8 else n - 24)"
  unfolding htonl_def mask_ff mask_ff00
  by (auto simp add: bit_simps add.commute dest: bit_imp_le_length)

lemma htonl_htonl: "htonl (htonl x) = x"
  by (rule bit_word_eqI) (auto simp add: htonl_bit)

lemma ntohl_htonl: "ntohl (htonl x) = x"
  by (simp add: ntohl_def htonl_htonl)

lemma htonl_ntohl: "htonl (ntohl x) = x"
  by (simp add: ntohl_def htonl_htonl)

lemma htonl_and: "htonl (x AND y) = htonl x AND htonl y"
  by (rule bit_word_eqI) (auto simp add: htonl_bit bit_simps)

lemma htonl_inj: "htonl x = htonl y \<Longrightarrow> x = y"
  by (metis htonl_htonl)

section \<open>The range loop: lemmas\<close>

lemma add_range_returns:
  "unat b < 2 ^ 32 - 1 \<Longrightarrow> unat a \<le> Suc (unat b) \<Longrightarrow>
   add_range (htonl a) (htonl b) l
     = Some (rev (map (\<lambda>k. ipv4_host (htonl (of_nat k))) [unat a ..< Suc (unat b)]) @ l)"
proof (induction "Suc (unat b) - unat a" arbitrary: a l)
  case 0
  then have eq: "unat a = Suc (unat b)" by simp
  then have "\<not> a \<le> b" by (simp add: word_le_nat_alt)
  then show ?case using eq
    by (subst add_range.simps) (simp add: ntohl_htonl)
next
  case (Suc n)
  then have le: "a \<le> b" by (simp add: word_le_nat_alt)
  then have le': "unat a \<le> unat b" by (simp add: word_le_nat_alt)
  have ua: "unat (a + 1) = Suc (unat a)"
    using Suc.prems Suc.hyps by (simp add: unat_word_ariths)
  have "add_range (htonl (a + 1)) (htonl b) (ipv4_host (htonl a) # l)
     = Some (rev (map (\<lambda>k. ipv4_host (htonl (of_nat k))) [unat (a + 1) ..< Suc (unat b)])
             @ ipv4_host (htonl a) # l)"
    using Suc.hyps(2) Suc.prems ua by (intro Suc.hyps(1)) simp_all
  moreover have "[unat a ..< Suc (unat b)] = unat a # [unat (a + 1) ..< Suc (unat b)]"
    using le' ua by (simp add: upt_conv_Cons)
  ultimately show ?case using le
    by (subst add_range.simps) (simp add: ntohl_htonl g_list_prepend_def ipv4_host_def)
qed

lemma add_range_ascending:
  assumes "ntohl last' \<noteq> - 1" and "ntohl first \<le> ntohl last'"
  shows "add_range first last' l = Some (rev (ascending_hosts first last') @ l)"
proof -
  have "unat (ntohl last') \<noteq> unat (- 1 :: 32 word)"
    using assms(1) by (simp only: word_unat_eq_iff not_False_eq_True)
  moreover have "unat (ntohl last') < 2 ^ 32"
    using unsigned_less [of "ntohl last'"] by simp
  ultimately have b: "unat (ntohl last') < 2 ^ 32 - 1"
    by (simp add: unsigned_minus_1_eq_mask mask_eq_exp_minus_1)
  have a: "unat (ntohl first) \<le> Suc (unat (ntohl last'))"
    using assms(2) by (simp add: word_le_nat_alt)
  show ?thesis
    using add_range_returns [OF b a, of l]
    by (simp add: htonl_ntohl ascending_hosts_def)
qed

lemma add_range_never_returns:
  assumes "add_range current' last' l = Some res"
  shows "ntohl last' \<noteq> - 1 \<or> \<not> ntohl current' \<le> ntohl last'"
  using assms
proof (induction rule: add_range.raw_induct [rotated 1, consumes 1])
  case (1 add_range' current' last' l res)
  show ?case
  proof (cases "ntohl current' \<le> ntohl last'")
    case True
    then have "add_range' (htonl (ntohl current' + 1)) last'
        (g_list_prepend l (openvas_host_new\<lparr>type := HOST_TYPE_IPV4, addr := current'\<rparr>)) = Some res"
      using 1(2) by simp
    from 1(1) [OF this] show ?thesis by auto
  next
    case False
    then show ?thesis by simp
  qed
qed

section \<open>Removing duplicates: lemmas\<close>

lemma equal_to_earlier_iff:
  "equal_to_earlier S y \<longleftrightarrow> (\<exists>s\<in>set S. openvas_host_equal (Some s) (Some y))"
  by (simp add: equal_to_earlier_def list_ex_iff)

lemma equal_to_earlier_snoc:
  "equal_to_earlier (S @ [x]) y \<longleftrightarrow>
     equal_to_earlier S y \<or> openvas_host_equal (Some x) (Some y)"
  by (auto simp: equal_to_earlier_iff)

lemma host_equal_sym:
  "openvas_host_equal (Some x) (Some y) \<Longrightarrow> openvas_host_equal (Some y) (Some x)"
  by (auto simp: openvas_host_equal_def split: if_splits)

lemma host_equal_trans:
  "openvas_host_equal (Some x) (Some y) \<Longrightarrow> openvas_host_equal (Some y) (Some z)
   \<Longrightarrow> openvas_host_equal (Some x) (Some z)"
  by (auto simp: openvas_host_equal_def split: if_splits)

lemma host_equal_refl_left:
  "openvas_host_equal (Some x) (Some y) \<Longrightarrow> openvas_host_equal (Some x) (Some x)"
  by (auto simp: openvas_host_equal_def split: if_splits)

lemma first_occurrences_cong:
  "(\<And>z. equal_to_earlier S z = equal_to_earlier S' z)
   \<Longrightarrow> first_occurrences S xs = first_occurrences S' xs"
proof (induction xs arbitrary: S S')
  case Nil
  show ?case by simp
next
  case (Cons x xs)
  have "first_occurrences (S @ [x]) xs = first_occurrences (S' @ [x]) xs"
    by (rule Cons.IH) (simp add: equal_to_earlier_snoc Cons.prems)
  then show ?case
    by (simp add: Cons.prems)
qed

lemma first_occurrences_filter:
  "equal_to_earlier S x \<Longrightarrow>
   first_occurrences S xs
     = first_occurrences S (filter (\<lambda>y. \<not> openvas_host_equal (Some x) (Some y)) xs)"
proof (induction xs arbitrary: S)
  case Nil
  show ?case by simp
next
  case (Cons y ys)
  show ?case
  proof (cases "openvas_host_equal (Some x) (Some y)")
    case True
    have dy: "equal_to_earlier S y"
      using Cons.prems True by (auto simp: equal_to_earlier_iff intro: host_equal_trans)
    have "\<And>z. equal_to_earlier (S @ [y]) z = equal_to_earlier S z"
      using Cons.prems True
      by (auto simp: equal_to_earlier_iff intro: host_equal_trans host_equal_sym)
    then have "first_occurrences (S @ [y]) ys = first_occurrences S ys"
      by (rule first_occurrences_cong)
    then show ?thesis
      using True dy Cons.IH [OF Cons.prems] by simp
  next
    case False
    have "equal_to_earlier (S @ [y]) x"
      using Cons.prems by (simp add: equal_to_earlier_snoc)
    then show ?thesis
      using False Cons.IH [of "S @ [y]"] by simp
  qed
qed

lemma remove_duplicates_of_filter:
  "fst (remove_duplicates_of host l r)
     = filter (\<lambda>y. \<not> openvas_host_equal (Some host) (Some y)) l"
  by (induction l arbitrary: r) (simp_all add: split_beta)

lemma remove_duplicates_of_count:
  "snd (remove_duplicates_of host l r) + of_nat (length (fst (remove_duplicates_of host l r)))
     = r + of_nat (length l)"
  by (induction l arbitrary: r) (simp_all add: split_beta)

lemma remove_duplicates_from_count:
  "snd (remove_duplicates_from l r) + of_nat (length (fst (remove_duplicates_from l r)))
     = r + of_nat (length l)"
proof (induction l r rule: remove_duplicates_from.induct)
  case (1 r)
  show ?case by simp
next
  case (2 host nxt r)
  obtain l r' where p: "remove_duplicates_of host nxt r = (l, r')"
    by (cases "remove_duplicates_of host nxt r")
  have a: "r' + of_nat (length l) = r + of_nat (length nxt)"
    using remove_duplicates_of_count [of host nxt r] by (simp add: p)
  have b: "snd (remove_duplicates_from l r') + of_nat (length (fst (remove_duplicates_from l r')))
      = r' + of_nat (length l)"
    using "2.IH" [OF p [symmetric]] .
  show ?case
    using a b by (simp add: p split_beta)
qed

lemma remove_duplicates_from_length:
  "length (fst (remove_duplicates_from l r)) \<le> length l"
proof (induction l r rule: remove_duplicates_from.induct)
  case (1 r)
  show ?case by simp
next
  case (2 host nxt r)
  obtain l r' where p: "remove_duplicates_of host nxt r = (l, r')"
    by (cases "remove_duplicates_of host nxt r")
  have "length l \<le> length nxt"
    using length_remove_duplicates_of [of host nxt r] by (simp add: p)
  moreover have "length (fst (remove_duplicates_from l r')) \<le> length l"
    using "2.IH" [OF p [symmetric]] .
  ultimately show ?case
    by (simp add: p split_beta)
qed

lemma remove_duplicates_from_first_occurrences:
  "(\<And>y. y \<in> set l \<Longrightarrow> \<not> equal_to_earlier S y) \<Longrightarrow>
   fst (remove_duplicates_from l r) = first_occurrences S l"
proof (induction l r arbitrary: S rule: remove_duplicates_from.induct)
  case (1 r)
  show ?case by simp
next
  case (2 host nxt r)
  obtain l r' where p: "remove_duplicates_of host nxt r = (l, r')"
    by (cases "remove_duplicates_of host nxt r")
  have l: "l = filter (\<lambda>y. \<not> openvas_host_equal (Some host) (Some y)) nxt"
    using remove_duplicates_of_filter [of host nxt r] by (simp add: p)
  have nd: "\<not> equal_to_earlier S host" using "2.prems" by simp
  have "fst (remove_duplicates_from l r') = first_occurrences (S @ [host]) nxt"
  proof (cases "openvas_host_equal (Some host) (Some host)")
    case True
    have "fst (remove_duplicates_from l r') = first_occurrences (S @ [host]) l"
      using "2.prems" by (intro "2.IH" [OF p [symmetric]]) (auto simp: l equal_to_earlier_snoc)
    also have "\<dots> = first_occurrences (S @ [host]) nxt"
      unfolding l using True
      by (intro first_occurrences_filter [symmetric]) (simp add: equal_to_earlier_snoc)
    finally show ?thesis .
  next
    case False
    have never: "\<And>z. \<not> openvas_host_equal (Some host) (Some z)"
      using False host_equal_refl_left by blast
    then have "l = nxt" by (simp add: l)
    have "fst (remove_duplicates_from l r') = first_occurrences S l"
      using "2.prems" by (intro "2.IH" [OF p [symmetric]]) (simp add: \<open>l = nxt\<close>)
    also have "\<dots> = first_occurrences (S @ [host]) nxt"
      unfolding \<open>l = nxt\<close>
      by (rule first_occurrences_cong) (simp add: equal_to_earlier_snoc never)
    finally show ?thesis .
  qed
  then show ?case
    using nd by (simp add: p split_beta)
qed

lemma first_occurrences_no_duplicates:
  "no_duplicates l \<Longrightarrow> (\<And>y. y \<in> set l \<Longrightarrow> \<not> equal_to_earlier S y)
   \<Longrightarrow> first_occurrences S l = l"
proof (induction l arbitrary: S)
  case Nil
  show ?case by simp
next
  case (Cons x xs)
  have "first_occurrences (S @ [x]) xs = xs"
    using Cons.prems by (intro Cons.IH) (auto simp: equal_to_earlier_snoc list_all_iff)
  then show ?case using Cons.prems(2) by simp
qed

lemma set_first_occurrences: "set (first_occurrences S l) \<subseteq> set l"
  by (induction l arbitrary: S) auto

section \<open>Shuffling: lemmas\<close>

lemma mset_remove_link_at:
  assumes "i < length l"
  shows "mset (g_list_remove_link_at l i) + {#l ! i#} = mset l"
proof -
  have "l = take i l @ l ! i # drop (Suc i) l"
    using assms by (rule id_take_nth_drop)
  then have "mset l = mset (take i l @ l ! i # drop (Suc i) l)" by simp
  then show ?thesis by (simp add: g_list_remove_link_at_def)
qed

lemma shuffle_loop_mset:
  "n = length l \<Longrightarrow> mset (snd (shuffle_loop n rand l new_list)) = mset l + mset new_list"
proof (induction n arbitrary: rand l new_list)
  case 0
  then show ?case by simp
next
  case (Suc n)
  define i where "i = rand 0 mod Suc n"
  have "i < Suc n" by (simp add: i_def)
  then have i: "i < length l" using Suc.prems by simp
  have len: "n = length (g_list_remove_link_at l i)"
    using Suc.prems i by (simp add: g_list_remove_link_at_def)
  show ?case
    using Suc.IH [OF len, of "\<lambda>k. rand (Suc k)" "l ! i # new_list"] i mset_remove_link_at [OF i]
    by (simp add: g_rand_int_range_def g_list_nth_def i_def [symmetric] flip: Suc.prems)
qed

lemma mset_hosts_shuffle: "mset (hosts (openvas_hosts_shuffle rand h)) = mset (hosts h)"
  using shuffle_loop_mset [of "length (hosts h)" "hosts h" rand "[]"]
  by (simp add: openvas_hosts_shuffle_def openvas_hosts_count_def split_beta)

section \<open>Building the collection: lemmas\<close>

lemma add_range_None:
  assumes "ntohl last' = - 1"
  shows "add_range first last' l = None"
proof (cases "add_range first last' l")
  case None
  then show ?thesis .
next
  case (Some res)
  with add_range_never_returns [OF Some] assms show ?thesis by simp
qed

lemma add_range_eq:
  "add_range first last' l =
     (if ntohl last' = - 1 then None
      else if ntohl first \<le> ntohl last' then Some (rev (ascending_hosts first last') @ l)
      else Some l)"
proof (cases "ntohl last' = - 1")
  case True
  then show ?thesis by (simp add: add_range_None)
next
  case False
  show ?thesis
  proof (cases "ntohl first \<le> ntohl last'")
    case True
    then show ?thesis using False by (simp add: add_range_ascending)
  next
    case no: False
    then show ?thesis using False by (subst add_range.simps) simp
  qed
qed

lemma hosts_new_element_eq:
  "hosts_new_element pf tok (h, err) =
     (if ends_at_max pf tok then None
      else Some (h\<lparr>hosts := rev (token_entries pf tok) @ hosts h,
                   removed := removed h + of_bool (token_invalid pf tok)\<rparr>,
                 err @ token_diagnostics pf tok))"
proof -
  have le: "\<not> (- 1 :: 32 word) < x" for x by (simp add: not_less)
  show ?thesis
    by (auto simp: hosts_new_element_def token_entries_def token_invalid_def
        token_diagnostics_def ends_at_max_def Let_def g_list_prepend_def add_range_eq le
        split: option.splits prod.splits)
qed

lemma hosts_new_loop_eq:
  "hosts_new_loop pf toks (h, err) =
     (if \<exists>tok\<in>set toks. ends_at_max pf tok then None
      else Some (h\<lparr>hosts := rev (concat (map (token_entries pf) toks)) @ hosts h,
                   removed := removed h + of_nat (length (filter (token_invalid pf) toks))\<rparr>,
                 err @ concat (map (token_diagnostics pf) toks)))"
  by (induction toks arbitrary: h err) (simp_all add: hosts_new_element_eq)

lemma remove_duplicates_from_eq:
  "remove_duplicates_from l r =
     (first_occurrences [] l, r + of_nat (length l - length (first_occurrences [] l)))"
proof -
  have f: "fst (remove_duplicates_from l r) = first_occurrences [] l"
    by (rule remove_duplicates_from_first_occurrences) (simp add: equal_to_earlier_def)
  have le: "length (first_occurrences [] l) \<le> length l"
    using remove_duplicates_from_length [of l r] by (simp add: f)
  have "snd (remove_duplicates_from l r) + of_nat (length (first_occurrences [] l))
      = r + of_nat (length l)"
    using remove_duplicates_from_count [of l r] by (simp add: f)
  then have "snd (remove_duplicates_from l r)
      = r + (of_nat (length l) - of_nat (length (first_occurrences [] l)))"
    by (simp add: algebra_simps)
  then have "snd (remove_duplicates_from l r)
      = r + of_nat (length l - length (first_occurrences [] l))"
    using le by (simp add: of_nat_diff)
  with f show ?thesis by (simp add: prod_eq_iff)
qed

lemma openvas_hosts_new_eq:
  "openvas_hosts_new pf (Some str) =
     (if \<exists>tok\<in>set (tokens_of str). ends_at_max pf tok then None
      else Some (Some \<lparr>orig_str = map (\<lambda>c. if c = CHR 0x0A then CHR '','' else c) str,
                       hosts = first_occurrences [] (spec_entries pf str),
                       current = first_occurrences [] (spec_entries pf str),
                       removed = of_nat (length (filter (token_invalid pf) (tokens_of str)))
                         + of_nat (length (spec_entries pf str)
                                   - length (first_occurrences [] (spec_entries pf str)))\<rparr>,
                 concat (map (token_diagnostics pf) (tokens_of str))))"
  by (simp add: openvas_hosts_new_def hosts_new_loop_eq openvas_hosts_remove_duplicates_def
      remove_duplicates_from_eq g_list_reverse_def Let_def
      flip: tokens_of_def spec_entries_def)

lemma next_results_current:
  "current h = l \<Longrightarrow>
   next_results n (Some h) = take n (map Some l) @ replicate (n - length l) None"
proof (induction n arbitrary: h l)
  case 0
  show ?case by simp
next
  case (Suc n)
  show ?case
  proof (cases l)
    case Nil
    then show ?thesis
      using Suc.IH [of h "[]"] Suc.prems by (simp add: openvas_hosts_next_def)
  next
    case (Cons x xs)
    then show ?thesis
      using Suc.IH [of "h\<lparr>current := xs\<rparr>" xs] Suc.prems by (simp add: openvas_hosts_next_def)
  qed
qed




section \<open>The CIDR mask: lemmas\<close>

lemma and_not_mask_push_drop: "(w :: 32 word) AND NOT (mask n) = push_bit n (drop_bit n w)"
  by (rule bit_word_eqI) (auto simp add: bit_simps)

lemma unat_and_not_mask:
  "unat ((w :: 32 word) AND NOT (mask n)) = 2 ^ n * (unat w div 2 ^ n)"
proof -
  have "unat (push_bit n (drop_bit n w)) = take_bit 32 (push_bit n (unat (drop_bit n w)))"
    by (simp add: unsigned_push_bit_eq)
  also have "unat (drop_bit n w) = unat w div 2 ^ n"
  proof -
    have "unat (drop_bit n w) = drop_bit n (unat w)" by (rule unat_drop_bit_eq)
    also have "\<dots> = unat w div 2 ^ n" by (rule drop_bit_eq_div)
    finally show ?thesis .
  qed
  also have "take_bit 32 (push_bit n (unat w div 2 ^ n)) = push_bit n (unat w div 2 ^ n)"
  proof (rule take_bit_nat_eq_self)
    have "push_bit n (unat w div 2 ^ n) \<le> unat w"
      by (simp add: push_bit_eq_mult)
    also have "\<dots> < 2 ^ 32" using unsigned_less [of w] by simp
    finally show "push_bit n (unat w div 2 ^ n) < 2 ^ 32" .
  qed
  finally show ?thesis by (simp add: and_not_mask_push_drop push_bit_eq_mult)
qed

lemma unat_and_not_mask_bound:
  assumes "n \<le> 32"
  shows "unat ((w :: 32 word) AND NOT (mask n)) + 2 ^ n \<le> 2 ^ 32"
proof -
  have "unat w div 2 ^ n < 2 ^ (32 - n)"
  proof -
    have "unat w < 2 ^ n * 2 ^ (32 - n)"
      using unsigned_less [of w] assms by (simp flip: power_add)
    then show ?thesis by (simp add: less_mult_imp_div_less mult.commute)
  qed
  then have "Suc (unat w div 2 ^ n) \<le> 2 ^ (32 - n)" by simp
  then have "2 ^ n * Suc (unat w div 2 ^ n) \<le> 2 ^ n * 2 ^ (32 - n)"
    by (rule mult_le_mono2)
  also have "\<dots> = 2 ^ 32" using assms by (simp flip: power_add)
  finally show ?thesis by (simp add: unat_and_not_mask)
qed

lemma xor_all_ones: "(0xffffffff :: 32 word) XOR x = NOT x"
proof -
  have e: "(0xffffffff :: 32 word) = - 1" by simp
  show ?thesis by (subst e) simp
qed

section \<open>Evaluation at concrete tokens: lemmas\<close>

lemmas char_defs = isdigit_def isalpha_def isalnum_def isspace_def g_ascii_isspace_def
  tolower_def digit_val_def peek_def hostname_char_def xdigit_val_def

lemmas pton_defs = inet_pton4_def inet_pton4_octets_def s_addr_of_octets_def inet_pton6_def
  inet_pton6_finish_def

lemmas classify_defs = determine_host_type_def is_ipv4_address_def is_ipv6_address_def
  is_cidr_block_def is_short_range_network_def is_long_range_network_def is_hostname_def
  strchr_cut_def strtol_def dec_val_def LONG_MAX_def LONG_MIN_def

lemmas strip_defs = g_strstrip_def g_strchug_def g_strchomp_def

lemmas token_defs = token_entries_def token_invalid_def token_diagnostics_def ends_at_max_def





lemma type_inverted:
  "determine_host_type pf ''10.0.0.10-10.0.0.5''
     = (if freed_read pf (cut_copy ''10.0.0.10'' ''10.0.0.5'') 12 = CHR 0x00
        then Some HOST_TYPE_RANGE_SHORT else Some HOST_TYPE_RANGE_LONG)"
  by (simp add: classify_defs pton_defs char_defs Let_def flip: numeral_2_eq_2)

lemma strip_inverted: "g_strstrip ''10.0.0.10-10.0.0.5'' = ''10.0.0.10-10.0.0.5''"
  by (simp add: strip_defs char_defs)

lemma ips_inverted:
  "long_range_network_ips ''10.0.0.10-10.0.0.5'' = Some (0x0A00000A, 0x0500000A)"
  by (simp add: long_range_network_ips_def strchr_cut_def pton_defs char_defs)

lemma ips_inverted_short:
  "short_range_network_ips ''10.0.0.10-10.0.0.5'' = Some (0x0A00000A, 0x0A00000A)"
  by (simp add: short_range_network_ips_def strchr_cut_def atoi_def strtol_def dec_val_def
      LONG_MAX_def LONG_MIN_def pton_defs char_defs ntohl_def htonl_def)

lemma ntohl_inverted: "ntohl 0x0A00000A = 0x0A00000A" "ntohl 0x0500000A = 0x0A000005"
  by (simp_all add: ntohl_def htonl_def)

lemma ascending_inverted_short: "ascending_hosts 0x0A00000A 0x0A00000A = [ipv4_host 0x0A00000A]"
  by (simp add: ascending_hosts_def ntohl_inverted upt_rec htonl_def)

lemma token_inverted:
  "token_entries pf ''10.0.0.10-10.0.0.5''
     = (if freed_read pf (cut_copy ''10.0.0.10'' ''10.0.0.5'') 12 = CHR 0x00
        then [ipv4_host 0x0A00000A] else [])"
  "\<not> ends_at_max pf ''10.0.0.10-10.0.0.5''"
  "\<not> token_invalid pf ''10.0.0.10-10.0.0.5''"
  "token_diagnostics pf ''10.0.0.10-10.0.0.5''
     = (if freed_read pf (cut_copy ''10.0.0.10'' ''10.0.0.5'') 12 = CHR 0x00 then []
        else [''ERROR - 10.0.0.10-10.0.0.5: Inversed limits.'' @ [CHR 0x0A]])"
  by (simp_all add: token_defs strip_inverted type_inverted ips_func_def ips_inverted
      ips_inverted_short ntohl_inverted ascending_inverted_short)

lemma type_name: "determine_host_type pf ''b.example'' = Some HOST_TYPE_NAME"
  by (simp add: classify_defs pton_defs char_defs)

lemma strip_name: "g_strstrip ''b.example'' = ''b.example''"
  by (simp add: strip_defs char_defs)

lemma token_name:
  "token_entries pf ''b.example'' = [single_host HOST_TYPE_NAME ''b.example'']"
  "\<not> ends_at_max pf ''b.example''"
  "\<not> token_invalid pf ''b.example''"
  "token_diagnostics pf ''b.example'' = []"
  by (simp_all add: token_defs strip_name type_name)

lemma strip_short: "g_strstrip ''10.0.0.5-7'' = ''10.0.0.5-7''"
  by (simp add: strip_defs char_defs)

lemma type_short:
  "determine_host_type pf ''10.0.0.5-7''
     = (if freed_read pf (cut_copy ''10.0.0.5'' ''7'') 10 = CHR 0x00
        then Some HOST_TYPE_RANGE_SHORT else Some HOST_TYPE_NAME)"
  by (simp add: classify_defs pton_defs char_defs Let_def flip: numeral_2_eq_2)

lemma ips_short:
  "short_range_network_ips ''10.0.0.5-7'' = Some (0x0500000A, 0x0700000A)"
  by (simp add: short_range_network_ips_def strchr_cut_def atoi_def strtol_def dec_val_def
      LONG_MAX_def LONG_MIN_def pton_defs char_defs ntohl_def htonl_def)

lemma ntohl_short: "ntohl 0x0500000A = 0x0A000005" "ntohl 0x0700000A = 0x0A000007"
  by (simp_all add: ntohl_def htonl_def)

lemma htonl_short:
  "htonl 0x0A000005 = 0x0500000A" "htonl 0x0A000006 = 0x0600000A" "htonl 0x0A000007 = 0x0700000A"
  by (simp_all add: htonl_def)

lemma ascending_short:
  "ascending_hosts 0x0500000A 0x0700000A
     = [ipv4_host 0x0500000A, ipv4_host 0x0600000A, ipv4_host 0x0700000A]"
  by (simp add: ascending_hosts_def ntohl_short upt_rec htonl_short)

lemma token_short:
  "token_entries pf ''10.0.0.5-7''
     = (if freed_read pf (cut_copy ''10.0.0.5'' ''7'') 10 = CHR 0x00
        then [ipv4_host 0x0500000A, ipv4_host 0x0600000A, ipv4_host 0x0700000A]
        else [single_host HOST_TYPE_NAME ''10.0.0.5-7''])"
  "\<not> ends_at_max pf ''10.0.0.5-7''"
  "\<not> token_invalid pf ''10.0.0.5-7''"
  "token_diagnostics pf ''10.0.0.5-7'' = []"
  by (simp_all add: token_defs strip_short type_short ips_func_def ips_short ntohl_short
      ascending_short)

lemma pton4_10_0_0_6: "inet_pton4 ''10.0.0.6'' = Some 0x0600000A"
  by (simp add: pton_defs char_defs)

lemma type_10_0_0_6: "determine_host_type pf ''10.0.0.6'' = Some HOST_TYPE_IPV4"
  by (simp add: determine_host_type_def is_ipv4_address_def pton4_10_0_0_6)

lemma strip_10_0_0_6: "g_strstrip '' 10.0.0.6'' = ''10.0.0.6''"
  by (simp add: strip_defs char_defs)

lemma token_10_0_0_6:
  "token_entries pf '' 10.0.0.6'' = [ipv4_host 0x0600000A]"
  "\<not> ends_at_max pf '' 10.0.0.6''"
  "\<not> token_invalid pf '' 10.0.0.6''"
  "token_diagnostics pf '' 10.0.0.6'' = []"
  by (simp_all add: token_defs strip_10_0_0_6 type_10_0_0_6 single_host_def pton4_10_0_0_6
      ipv4_host_def)

lemma replicate_14: "replicate 14 x = [x, x, x, x, x, x, x, x, x, x, x, x, x, x]"
  by (simp add: eval_nat_numeral)

lemma pton6_loopback:
  "inet_pton6 ''::1'' = Some [0, 0, 0, 0, 0, 0, 0, 0, 0, 0, 0, 0, 0, 0, 0, 1]"
  by (simp add: pton_defs char_defs replicate_14)

lemma type_loopback: "determine_host_type pf ''::1'' = Some HOST_TYPE_IPV6"
  by (simp add: determine_host_type_def is_ipv4_address_def is_ipv6_address_def pton6_loopback
      pton_defs char_defs)

lemma strip_loopback: "g_strstrip ''::1'' = ''::1''"
  by (simp add: strip_defs char_defs)

lemma token_loopback:
  "token_entries pf ''::1'' = [single_host HOST_TYPE_IPV6 ''::1'']"
  "\<not> ends_at_max pf ''::1''"
  "\<not> token_invalid pf ''::1''"
  "token_diagnostics pf ''::1'' = []"
  by (simp_all add: token_defs strip_loopback type_loopback)

lemma tokens_of_example:
  "tokens_of ''b.example, 10.0.0.6\<newline>::1'' = [''b.example'', '' 10.0.0.6'', ''::1'']"
  by (simp add: tokens_of_def g_strsplit_def)

lemma spec_entries_example:
  "spec_entries pf ''b.example, 10.0.0.6\<newline>::1''
     = [single_host HOST_TYPE_NAME ''b.example'', ipv4_host 0x0600000A,
        single_host HOST_TYPE_IPV6 ''::1'']"
  by (simp add: spec_entries_def tokens_of_example token_name token_10_0_0_6 token_loopback)

lemma no_duplicates_example:
  "no_duplicates [single_host HOST_TYPE_NAME ''b.example'', ipv4_host 0x0600000A,
        single_host HOST_TYPE_IPV6 ''::1'']"
  by (simp add: openvas_host_equal_def single_host_def ipv4_host_def openvas_host_new_def
      pton6_loopback Let_def)

lemma example_parse:
  "openvas_hosts_new pf (Some ''b.example, 10.0.0.6\<newline>::1'')
     = Some (Some \<lparr>orig_str = ''b.example, 10.0.0.6,::1'',
          hosts = [single_host HOST_TYPE_NAME ''b.example'', ipv4_host 0x0600000A,
                   single_host HOST_TYPE_IPV6 ''::1''],
          current = [single_host HOST_TYPE_NAME ''b.example'', ipv4_host 0x0600000A,
                   single_host HOST_TYPE_IPV6 ''::1''],
          removed = 0\<rparr>, [])"
proof -
  have "first_occurrences [] (spec_entries pf ''b.example, 10.0.0.6\<newline>::1'')
      = spec_entries pf ''b.example, 10.0.0.6\<newline>::1''"
    by (rule first_occurrences_no_duplicates)
      (simp_all only: spec_entries_example no_duplicates_example, simp add: equal_to_earlier_def)
  then show ?thesis
    by (simp add: openvas_hosts_new_eq tokens_of_example spec_entries_example
        token_name token_10_0_0_6 token_loopback)
qed

lemma pton4_10_0_0_0: "inet_pton4 ''10.0.0.0'' = Some 0x0000000A"
  by (simp add: pton_defs char_defs)

lemma cidr_suffixes:
  "determine_host_type pf ''10.0.0.0/24''
     = (if freed_read pf (cut_copy ''10.0.0.0'' ''24'') 11 = CHR 0x00
        then Some HOST_TYPE_CIDR_BLOCK else None)"
  "determine_host_type pf ''10.0.0.0/1''
     = (if freed_read pf (cut_copy ''10.0.0.0'' ''1'') 10 = CHR 0x00
        then Some HOST_TYPE_CIDR_BLOCK else None)"
  "determine_host_type pf ''10.0.0.0/30''
     = (if freed_read pf (cut_copy ''10.0.0.0'' ''30'') 11 = CHR 0x00
        then Some HOST_TYPE_CIDR_BLOCK else None)"
  "determine_host_type pf ''10.0.0.0/2x''
     = (if freed_read pf (cut_copy ''10.0.0.0'' ''2x'') 10 = CHR 0x00
        then Some HOST_TYPE_CIDR_BLOCK else None)"
  "determine_host_type pf ''10.0.0.0/0'' = None"
  "determine_host_type pf ''10.0.0.0/31'' = None"
  "determine_host_type pf ''10.0.0.0/32'' = None"
  "determine_host_type pf ''10.0.0.0/124'' = None"
  by (simp_all add: classify_defs pton_defs char_defs Let_def flip: numeral_2_eq_2)

lemma pton4_192_168_100_0: "inet_pton4 ''192.168.100.0'' = Some 0x0064A8C0"
  by (simp add: pton_defs char_defs)

lemma type_three_digits:
  "determine_host_type pf ''192.168.100.0/024''
     = (if freed_read pf (cut_copy ''192.168.100.0'' ''024'') 17 = CHR 0x00
        then Some HOST_TYPE_CIDR_BLOCK else None)"
  by (simp add: classify_defs pton_defs char_defs Let_def flip: numeral_2_eq_2)

lemma glibc_reads:
  "freed_read glibc_x86_64 (cut_copy ''192.168.100.0'' ''024'') 17 = CHR 0x00"
  "freed_read glibc_x86_64 (cut_copy ''10.0.0.0'' ''24'') 11 \<noteq> CHR 0x00"
  "freed_read glibc_x86_64 (cut_copy ''10.0.0.5'' ''7'') 10 \<noteq> CHR 0x00"
  "freed_read glibc_x86_64 (cut_copy ''10.0.0.10'' ''10.0.0.5'') 12 \<noteq> CHR 0x00"
  by (simp_all add: glibc_x86_64_def cut_copy_def)

lemma ips_three_digits:
  "cidr_block_ips pf ''192.168.100.0/024'' = Some (htonl 0xC0000001, htonl 0xFFFFFFFE)"
  by (simp add: cidr_block_ips_def cidr_get_block_def sscanf_cidr_def cidr_get_ip_def
      strchr_cut_def pton4_192_168_100_0 shl1_def dec_val_def char_defs ntohl_def htonl_def Let_def)

lemma pton4_last_two:
  "inet_pton4 ''255.255.255.254'' = Some 0xFEFFFFFF"
  "inet_pton4 ''255.255.255.255'' = Some 0xFFFFFFFF"
  by (simp_all add: pton_defs char_defs)

lemma strip_last_two:
  "g_strstrip ''255.255.255.254-255.255.255.255'' = ''255.255.255.254-255.255.255.255''"
  by (simp add: strip_defs char_defs)

lemma type_last_two:
  "determine_host_type pf ''255.255.255.254-255.255.255.255''
     = (if freed_read pf (cut_copy ''255.255.255.254'' ''255.255.255.255'') 19 = CHR 0x00
        then Some HOST_TYPE_RANGE_SHORT else Some HOST_TYPE_RANGE_LONG)"
  by (simp add: classify_defs pton_defs char_defs Let_def flip: numeral_2_eq_2)

lemma ips_last_two:
  "long_range_network_ips ''255.255.255.254-255.255.255.255'' = Some (0xFEFFFFFF, 0xFFFFFFFF)"
  "short_range_network_ips ''255.255.255.254-255.255.255.255'' = Some (0xFEFFFFFF, 0xFFFFFFFF)"
  by (simp_all add: long_range_network_ips_def short_range_network_ips_def strchr_cut_def
      atoi_def strtol_def dec_val_def LONG_MAX_def LONG_MIN_def pton_defs char_defs ntohl_def
      htonl_def)

lemma ntohl_last_two: "ntohl 0xFEFFFFFF = 0xFFFFFFFE" "ntohl 0xFFFFFFFF = - 1"
  by (simp_all add: ntohl_def htonl_def)

lemma ascending_last_two:
  "ascending_hosts 0xFEFFFFFF 0xFFFFFFFF = [ipv4_host 0xFEFFFFFF, ipv4_host 0xFFFFFFFF]"
proof -
  have "unat (- 1 :: 32 word) = 4294967295"
    by (simp add: unsigned_minus_1_eq_mask mask_eq_exp_minus_1)
  moreover have "htonl 4294967294 = 0xFEFFFFFF" "htonl 4294967295 = 0xFFFFFFFF"
    by (simp_all add: htonl_def)
  ultimately show ?thesis
    by (simp add: ascending_hosts_def ntohl_last_two upt_rec)
qed

lemma token_last_two:
  "token_entries pf ''255.255.255.254-255.255.255.255''
     = [ipv4_host 0xFEFFFFFF, ipv4_host 0xFFFFFFFF]"
  "ends_at_max pf ''255.255.255.254-255.255.255.255''"
  by (simp_all add: token_defs strip_last_two type_last_two ips_func_def ips_last_two
      ntohl_last_two ascending_last_two)

lemma type_invalid: "determine_host_type pf ''not a host!!'' = None"
  by (simp add: classify_defs pton_defs char_defs)

lemma strip_invalid: "g_strstrip ''not a host!!'' = ''not a host!!''"
  by (simp add: strip_defs char_defs)

lemma token_invalid_example:
  "token_entries pf ''not a host!!'' = []"
  "\<not> ends_at_max pf ''not a host!!''"
  "token_invalid pf ''not a host!!''"
  "token_diagnostics pf ''not a host!!'' = [''ERROR - not a host!!: Invalid host string.\<newline>'']"
  by (simp_all add: token_defs strip_invalid type_invalid)

section \<open>Entry types and resolution: lemmas\<close>

lemma type_single_host: "type (single_host t s) = t"
  by (simp add: single_host_def Let_def split: option.splits)

lemma type_ascending_hosts: "x \<in> set (ascending_hosts first last') \<Longrightarrow> type x = HOST_TYPE_IPV4"
  by (auto simp: ascending_hosts_def ipv4_host_def)

lemma type_token_entries:
  "x \<in> set (token_entries pf tok) \<Longrightarrow> type x \<in> {HOST_TYPE_NAME, HOST_TYPE_IPV4, HOST_TYPE_IPV6}"
  by (auto simp: token_entries_def Let_def type_single_host
      split: if_splits option.splits dest: type_ascending_hosts)

lemma type_spec_entries:
  "x \<in> set (spec_entries pf str) \<Longrightarrow> type x \<in> {HOST_TYPE_NAME, HOST_TYPE_IPV4, HOST_TYPE_IPV6}"
  using type_token_entries by (auto simp: spec_entries_def)

lemma set_next_results:
  "Some x \<in> set (next_results n (Some h)) \<Longrightarrow> x \<in> set (current h)"
  by (auto simp: next_results_current [OF refl] dest: in_set_takeD)


section \<open>CIDR tokens: lemmas\<close>

lemma inet_pton4_loop_chars:
  "inet_pton4_loop s sd oc dn cur = Some bs \<Longrightarrow> c \<in> set s \<Longrightarrow> isdigit c \<or> c = CHR ''.''"
proof (induction s arbitrary: sd oc dn cur)
  case Nil
  then show ?case by simp
next
  case (Cons x xs)
  show ?case
  proof (cases "c = x")
    case True
    then show ?thesis using Cons.prems(1) by (auto split: if_splits)
  next
    case False
    then have "c \<in> set xs" using Cons.prems(2) by simp
    then show ?thesis
      using Cons.prems(1) Cons.IH by (auto simp: Let_def split: if_splits)
  qed
qed

lemma inet_pton4_octets_chars:
  assumes "inet_pton4_octets s = Some bs"
  shows "s \<noteq> []" and "\<And>c. c \<in> set s \<Longrightarrow> isdigit c \<or> c = CHR ''.''"
  using assms inet_pton4_loop_chars [of s False 0 "[]" 0 bs]
  by (auto simp: inet_pton4_octets_def)

lemma inet_pton4_chars:
  assumes "inet_pton4 s = Some A"
  shows "s \<noteq> []" and "\<And>c. c \<in> set s \<Longrightarrow> isdigit c \<or> c = CHR ''.''"
  using assms inet_pton4_octets_chars [of s] by (auto simp: inet_pton4_def)

lemma slash_facts:
  "\<not> isdigit CHR ''/''" "xdigit_val (tolower CHR ''/'') = None" "tolower CHR ''/'' = CHR ''/''"
  "xdigit_val CHR ''/'' = None"
  by (simp_all add: char_defs)

lemma inet_pton4_octets_slash: "CHR ''/'' \<in> set s \<Longrightarrow> inet_pton4_octets s = None"
proof (cases "inet_pton4_octets s")
  case None
  then show ?thesis .
next
  case (Some bs)
  assume "CHR ''/'' \<in> set s"
  from inet_pton4_octets_chars(2) [OF Some this] show ?thesis by (simp add: slash_facts)
qed

lemma inet_pton6_loop_slash:
  "CHR ''/'' \<in> set src \<Longrightarrow> set src \<subseteq> set curtok
   \<Longrightarrow> inet_pton6_loop src curtok sx v tp cp = None"
proof (induction src arbitrary: curtok sx v tp cp)
  case Nil
  then show ?case by simp
next
  case (Cons x xs)
  have tok: "inet_pton4_octets curtok = None"
    using Cons.prems by (intro inet_pton4_octets_slash) auto
  show ?case
  proof (cases "x = CHR ''/''")
    case True
    then show ?thesis by (simp add: slash_facts)
  next
    case False
    then have in_xs: "CHR ''/'' \<in> set xs" using Cons.prems(1) by simp
    have sub: "set xs \<subseteq> set curtok" using Cons.prems(2) by auto
    have a: "inet_pton6_loop xs curtok sx' v' tp' cp' = None" for sx' v' tp' cp'
      using Cons.IH [OF in_xs sub] .
    have b: "inet_pton6_loop xs xs sx' v' tp' cp' = None" for sx' v' tp' cp'
      using Cons.IH [OF in_xs subset_refl] .
    have ne: "xs \<noteq> []" using in_xs by auto
    show ?thesis
      by (simp add: a b tok ne split: option.splits)
  qed
qed

lemma inet_pton6_slash: "CHR ''/'' \<in> set s \<Longrightarrow> inet_pton6 s = None"
proof -
  assume s: "CHR ''/'' \<in> set s"
  then have "CHR ''/'' \<in> set (tl s)" if "peek s = CHR '':''"
    using that by (cases s) (auto simp: peek_def)
  then show ?thesis
    using s by (simp add: inet_pton6_def inet_pton6_loop_slash Let_def)
qed

lemma strchr_cut_append:
  assumes "c \<notin> set a"
  shows "strchr_cut c (a @ c # ds) = Some (a, ds)"
proof -
  have "\<And>x. x \<in> set a \<Longrightarrow> x \<noteq> c" using assms by auto
  then show ?thesis
    by (simp add: strchr_cut_def takeWhile_append2 dropWhile_append2)
qed

lemma digit_not_space: "isdigit c \<Longrightarrow> \<not> isspace c \<and> \<not> g_ascii_isspace c \<and> c \<noteq> CHR ''-'' \<and> c \<noteq> CHR ''+'' \<and> c \<noteq> CHR '','' \<and> c \<noteq> CHR 0x0A \<and> c \<noteq> CHR ''/''"
  by (auto simp: char_defs)

lemma dot_not_space: "\<not> g_ascii_isspace CHR ''.''"
  by (simp add: char_defs)

lemma strtol_digits:
  assumes "ds \<noteq> []" and "\<And>c. c \<in> set ds \<Longrightarrow> isdigit c" and "int (dec_val ds) \<le> LONG_MAX"
  shows "strtol ds = (int (dec_val ds), [])"
proof -
  obtain d ds' where ds: "ds = d # ds'" using assms(1) by (cases ds) auto
  have d: "isdigit d" using assms(2) ds by simp
  have 1: "dropWhile isspace ds = ds" using d digit_not_space [of d] by (simp add: ds)
  have 2: "peek ds \<noteq> CHR ''-''" "peek ds \<noteq> CHR ''+''"
    using d digit_not_space [of d] by (simp_all add: ds peek_def)
  have 3: "takeWhile isdigit ds = ds" using assms(2) by (simp add: takeWhile_eq_all_conv)
  have 4: "dropWhile isdigit ds = []" using assms(2) by (simp add: dropWhile_eq_Nil_conv)
  have 5: "LONG_MIN \<le> int (dec_val ds)" by (simp add: LONG_MIN_def)
  show ?thesis
    using assms(1,3) 5 by (simp add: strtol_def 1 2 3 4 Let_def min_def max_def)
qed

lemma sscanf_cidr_digits:
  assumes "a \<noteq> []" and "\<And>c. c \<in> set a \<Longrightarrow> isdigit c \<or> c = CHR ''.''"
    and "ds \<noteq> []" and "length ds \<le> 2" and "\<And>c. c \<in> set ds \<Longrightarrow> isdigit c"
  shows "sscanf_cidr (a @ CHR ''/'' # ds) = Some (of_nat (dec_val ds))"
proof -
  obtain d ds' where ds: "ds = d # ds'" using assms(3) by (cases ds) auto
  have d: "isdigit d" using assms(5) ds by simp
  have 0: "\<not> (isdigit CHR ''/'' \<or> CHR ''/'' = CHR ''.'')" by (simp add: slash_facts)
  have 1: "takeWhile (\<lambda>c. isdigit c \<or> c = CHR ''.'') (a @ CHR ''/'' # ds) = a"
    using assms(2) 0 by (simp add: takeWhile_append2)
  have 2: "dropWhile (\<lambda>c. isdigit c \<or> c = CHR ''.'') (a @ CHR ''/'' # ds) = CHR ''/'' # ds"
    using assms(2) 0 by (simp add: dropWhile_append2)
  have 3: "dropWhile isspace ds = ds" using d digit_not_space [of d] by (simp add: ds)
  have 4: "take 2 ds = ds" using assms(4) by simp
  have 5: "peek ds \<noteq> CHR ''-''" "peek ds \<noteq> CHR ''+''"
    using d digit_not_space [of d] by (simp_all add: ds peek_def)
  have 6: "takeWhile isdigit ds = ds" using assms(5) by (simp add: takeWhile_eq_all_conv)
  have 7: "peek (CHR ''/'' # ds) = CHR ''/''" by (simp add: peek_def)
  show ?thesis
    using assms(1,3) by (simp add: sscanf_cidr_def 1 2 3 4 5 6 7 Let_def)
qed

lemma strsplit_pieces_single: "d \<notin> set s \<Longrightarrow> strsplit_pieces d s = [s]"
  by (induction s) auto

lemma tokens_of_single:
  assumes "s \<noteq> []" and "CHR '','' \<notin> set s" and "CHR 0x0A \<notin> set s"
  shows "tokens_of s = [s]"
proof -
  have "map (\<lambda>c. if c = CHR 0x0A then CHR '','' else c) s = s"
    using assms(3) by (intro map_idI) auto
  then show ?thesis
    using assms(1,2) by (simp add: tokens_of_def g_strsplit_def strsplit_pieces_single)
qed

lemma g_strstrip_id:
  assumes "s \<noteq> []" and "\<not> g_ascii_isspace (hd s)" and "\<not> g_ascii_isspace (last s)"
  shows "g_strstrip s = s"
proof -
  have 1: "dropWhile g_ascii_isspace s = s"
    using assms(1,2) by (cases s) auto
  obtain ys y where s: "s = ys @ [y]"
    using assms(1) by (metis rev_exhaust)
  have 2: "dropWhile g_ascii_isspace (rev s) = rev s"
    using assms(3) by (simp add: s)
  show ?thesis by (simp add: g_strstrip_def g_strchug_def g_strchomp_def 1 2)
qed

lemma unat_of_nat32: "k < 2 ^ 32 \<Longrightarrow> unat (of_nat k :: 32 word) = k"
  by (simp add: unat_of_nat)

lemma shl1_of_nat:
  assumes "1 \<le> p" and "p \<le> 32"
  shows "shl1 pf (of_nat p) = 2 ^ (32 - p)"
proof -
  have "(32 :: 32 word) - of_nat p = of_nat (32 - p)"
    using assms by (simp add: of_nat_diff)
  moreover have "unat (of_nat (32 - p) :: 32 word) = 32 - p"
    by (rule unat_of_nat32) (simp add: less_le_trans [of _ 33])
  ultimately show ?thesis
    using assms by (simp add: shl1_def push_bit_of_1)
qed

lemma unat_add_of_nat:
  assumes "unat x + k < 2 ^ 32"
  shows "unat (x + of_nat k :: 32 word) = unat x + k"
proof -
  have k: "unat (of_nat k :: 32 word) = k"
    using assms by (intro unat_of_nat32) simp
  show ?thesis
    using assms by (simp add: unat_word_ariths k)
qed

lemma upt_shift: "[n + a ..< n + b] = map (\<lambda>j. n + j) [a ..< b]"
  by (induction b) auto

lemma no_duplicates_map:
  assumes "distinct ks"
    and "\<And>x y. x \<in> set ks \<Longrightarrow> y \<in> set ks \<Longrightarrow> openvas_host_equal (Some (g x)) (Some (g y)) \<Longrightarrow> x = y"
  shows "no_duplicates (map g ks)"
  using assms by (induction ks) (auto simp: list_all_iff)

lemma no_duplicates_ascending_hosts: "no_duplicates (ascending_hosts first last')"
  unfolding ascending_hosts_def
proof (rule no_duplicates_map)
  show "distinct [unat (ntohl first)..<Suc (unat (ntohl last'))]" by simp
next
  fix x y
  assume x: "x \<in> set [unat (ntohl first)..<Suc (unat (ntohl last'))]"
    and y: "y \<in> set [unat (ntohl first)..<Suc (unat (ntohl last'))]"
    and e: "openvas_host_equal (Some (ipv4_host (htonl (of_nat x)))) (Some (ipv4_host (htonl (of_nat y))))"
  have b: "unat (ntohl last') < 2 ^ 32" using unsigned_less [of "ntohl last'"] by simp
  have "x < 2 ^ 32" "y < 2 ^ 32" using x y b by auto
  moreover have "(of_nat x :: 32 word) = of_nat y"
    using e by (auto simp: openvas_host_equal_def ipv4_host_def dest: htonl_inj)
  ultimately show "x = y"
    by (metis unat_of_nat32)
qed

lemma cidr_token:
  assumes a: "inet_pton4 a = Some A"
    and ds: "ds \<noteq> []" "length ds \<le> 2" "\<And>c. c \<in> set ds \<Longrightarrow> isdigit c"
    and p: "1 \<le> dec_val ds" "dec_val ds \<le> 30"
  shows "g_strstrip (a @ CHR ''/'' # ds) = a @ CHR ''/'' # ds"
    and "tokens_of (a @ CHR ''/'' # ds) = [a @ CHR ''/'' # ds]"
    and "determine_host_type pf (a @ CHR ''/'' # ds)
         = (if freed_read pf (cut_copy a ds) (length a + 1 + length ds) = CHR 0x00
            then Some HOST_TYPE_CIDR_BLOCK else None)"
    and "cidr_block_ips pf (a @ CHR ''/'' # ds)
         = Some (htonl ((ntohl A AND cidr_mask (dec_val ds)) + 1),
                 htonl ((ntohl A AND cidr_mask (dec_val ds)) + 2 ^ (32 - dec_val ds) - 2))"
    and "map (\<lambda>c. if c = CHR 0x0A then CHR '','' else c) (a @ CHR ''/'' # ds) = a @ CHR ''/'' # ds"
proof -
  let ?s = "a @ CHR ''/'' # ds"
  let ?p = "dec_val ds"
  have a_ne: "a \<noteq> []" and a_ch: "\<And>c. c \<in> set a \<Longrightarrow> isdigit c \<or> c = CHR ''.''"
    using inet_pton4_chars [OF a] by auto
  have no_slash: "CHR ''/'' \<notin> set a" using a_ch slash_facts(1) by auto
  have ch: "c \<in> set ?s \<Longrightarrow> isdigit c \<or> c = CHR ''.'' \<or> c = CHR ''/''" for c
    using a_ch ds(3) by auto
  have hd_s: "\<not> g_ascii_isspace (hd ?s)"
    using a_ne a_ch [of "hd a"] digit_not_space [of "hd a"] dot_not_space by (cases a) auto
  have last_s: "\<not> g_ascii_isspace (last ?s)"
    using ds(1) ds(3) [of "last ds"] digit_not_space [of "last ds"] by simp
  show strip: "g_strstrip ?s = ?s"
    using hd_s last_s by (intro g_strstrip_id) simp_all
  have no_nl: "CHR 0x0A \<notin> set ?s" using ch digit_not_space by fastforce
  show "tokens_of ?s = [?s]"
  proof (rule tokens_of_single)
    show "?s \<noteq> []" by simp
    show "CHR '','' \<notin> set ?s" using ch digit_not_space by fastforce
    show "CHR 0x0A \<notin> set ?s" by (rule no_nl)
  qed
  show "map (\<lambda>c. if c = CHR 0x0A then CHR '','' else c) ?s = ?s"
    using no_nl by (intro map_idI) auto
  have cut: "strchr_cut CHR ''/'' ?s = Some (a, ds)"
    using no_slash by (rule strchr_cut_append)
  have tol: "strtol ds = (int ?p, [])"
    using ds p by (intro strtol_digits) (simp_all add: LONG_MAX_def)
  have dig: "isdigit (peek ds)"
    using ds(1) ds(3) [of "hd ds"] by (cases ds) (simp_all add: peek_def)
  have "is_cidr_block pf ?s
      \<longleftrightarrow> freed_read pf (cut_copy a ds) (length a + 1 + length ds) = CHR 0x00"
    using p by (simp add: is_cidr_block_def cut is_ipv4_address_def a dig tol Let_def)
  moreover have "\<not> is_ipv4_address ?s"
    by (simp add: is_ipv4_address_def inet_pton4_def inet_pton4_octets_slash)
  moreover have "\<not> is_ipv6_address ?s"
    by (simp add: is_ipv6_address_def inet_pton6_slash)
  moreover have no_dash: "CHR ''-'' \<notin> set ?s"
    using ch digit_not_space by fastforce
  then have "\<not> is_short_range_network pf ?s" and "\<not> is_long_range_network ?s"
    by (simp_all add: is_short_range_network_def is_long_range_network_def strchr_cut_def)
  moreover have "\<not> is_hostname ?s"
  proof -
    have "\<not> hostname_char CHR ''/''" by (simp add: char_defs)
    then have "dropWhile hostname_char ?s \<noteq> []"
      by (auto simp: dropWhile_eq_Nil_conv)
    then show ?thesis by (simp add: is_hostname_def)
  qed
  ultimately show "determine_host_type pf ?s
         = (if freed_read pf (cut_copy a ds) (length a + 1 + length ds) = CHR 0x00
            then Some HOST_TYPE_CIDR_BLOCK else None)"
    by (simp add: determine_host_type_def)
  have blk: "cidr_get_block ?s = Some (of_nat ?p)"
    unfolding cidr_get_block_def using a_ne a_ch ds by (intro sscanf_cidr_digits)
  have ip: "cidr_get_ip ?s = Some A"
    by (simp add: cidr_get_ip_def cut a)
  have sh: "shl1 pf (of_nat ?p) = 2 ^ (32 - ?p)"
    using p by (intro shl1_of_nat) simp_all
  have msk: "(0xffffffff :: 32 word) XOR (2 ^ (32 - ?p) - 1) = cidr_mask ?p"
    by (simp add: xor_all_ones cidr_mask_def mask_eq_exp_minus_1)
  have n: "ntohl (A AND htonl (cidr_mask ?p)) = ntohl A AND cidr_mask ?p"
    by (simp add: ntohl_def htonl_and htonl_htonl)
  show "cidr_block_ips pf ?s
         = Some (htonl ((ntohl A AND cidr_mask ?p) + 1),
                 htonl ((ntohl A AND cidr_mask ?p) + 2 ^ (32 - ?p) - 2))"
    by (simp add: cidr_block_ips_def blk ip sh msk n ntohl_htonl Let_def)
qed

lemma cidr_limits_unat:
  assumes "1 \<le> p" and "p \<le> 30"
  shows "unat ((w AND cidr_mask p) + 2 ^ (32 - p) - 2) = unat (w AND cidr_mask p) + 2 ^ (32 - p) - 2"
    and "unat ((w AND cidr_mask p) + 1) = unat (w AND cidr_mask p) + 1"
    and "unat (w AND cidr_mask p) + 2 ^ (32 - p) \<le> 2 ^ 32"
    and "(4 :: nat) \<le> 2 ^ (32 - p)"
proof -
  let ?N = "w AND cidr_mask p"
  let ?m = "32 - p"
  show b: "unat ?N + 2 ^ ?m \<le> 2 ^ 32"
    unfolding cidr_mask_def by (rule unat_and_not_mask_bound) simp
  have "(2 :: nat) ^ 2 \<le> 2 ^ ?m"
    using assms by (intro power_increasing) simp_all
  then show four: "(4 :: nat) \<le> 2 ^ ?m" by simp
  have "unat (?N + of_nat 1) = unat ?N + 1"
    using b four by (intro unat_add_of_nat) simp
  then show "unat (?N + 1) = unat ?N + 1" by simp
  have "unat (?N + of_nat (2 ^ ?m - 2)) = unat ?N + (2 ^ ?m - 2)"
    using b four by (intro unat_add_of_nat) simp
  moreover have "(of_nat (2 ^ ?m - 2) :: 32 word) = 2 ^ ?m - 2"
    using four by (simp add: of_nat_diff)
  ultimately show "unat (?N + 2 ^ ?m - 2) = unat ?N + 2 ^ ?m - 2"
    using four by (simp add: add_diff_eq)
qed

lemma cidr_ascending:
  assumes "1 \<le> p" and "p \<le> 30"
  shows "ascending_hosts (htonl ((ntohl A AND cidr_mask p) + 1))
           (htonl ((ntohl A AND cidr_mask p) + 2 ^ (32 - p) - 2))
         = cidr_entries A p"
proof -
  let ?N = "ntohl A AND cidr_mask p"
  let ?m = "32 - p"
  note u = cidr_limits_unat(1-3) [OF assms, of "ntohl A"] cidr_limits_unat(4) [OF assms]
  have e: "Suc (unat (?N + 2 ^ ?m - 2)) = unat ?N + (2 ^ ?m - 1)"
    using u(4) by (simp add: u(1))
  have "[unat (?N + 1) ..< Suc (unat (?N + 2 ^ ?m - 2))] = [unat ?N + 1 ..< unat ?N + (2 ^ ?m - 1)]"
    by (simp only: e u(2))
  also have "\<dots> = map (\<lambda>j. unat ?N + j) [1 ..< 2 ^ ?m - 1]"
    by (rule upt_shift)
  finally show ?thesis
    by (simp add: ascending_hosts_def cidr_entries_def ntohl_htonl o_def)
qed

lemma dec_val_24: "dec_val ''24'' = 24"
  by (simp add: dec_val_def char_defs)

lemma cidr_entries_10_0_0_0_24:
  "cidr_entries 0x0000000A 24 = map (\<lambda>k. ipv4_host (htonl (0x0A000000 + of_nat k))) [1 ..< 255]"
proof -
  have "ntohl (0x0000000A :: 32 word) = 0x0A000000" by (simp add: ntohl_def htonl_def)
  moreover have "(0x0A000000 :: 32 word) AND cidr_mask 24 = 0x0A000000"
    by (simp add: cidr_mask_def mask_eq_exp_minus_1)
  ultimately show ?thesis by (simp add: cidr_entries_def)
qed

section \<open>Null handles\<close>

text \<open>
  C10. The read accessors are defined on the null pointer: \<^verbatim>\<open>openvas_hosts_next\<close>
  returns the null pointer (the end of the sequence), \<^verbatim>\<open>openvas_hosts_count\<close> and
  \<^verbatim>\<open>openvas_hosts_removed\<close> return 0, and \<^verbatim>\<open>openvas_host_type\<close> returns -1.
\<close>

theorem null_handle_accessors:
  "fst (openvas_hosts_next None) = None
   \<and> openvas_hosts_count None = 0
   \<and> openvas_hosts_removed None = 0
   \<and> openvas_host_type None = None"
  by (simp add: openvas_hosts_next_def openvas_hosts_count_def openvas_hosts_removed_def
      openvas_host_type_def)

section \<open>Shuffling\<close>

text \<open>
  C8. Whatever numbers the generator produces, \<^verbatim>\<open>openvas_hosts_shuffle\<close> leaves the
  multiset of the entries as it was, and with it the count; the counter of removed
  values is unchanged; and \<^verbatim>\<open>current\<close> points to the first node of the new list.
\<close>

theorem shuffle_is_permutation:
  "mset (hosts (openvas_hosts_shuffle rand h)) = mset (hosts h)
   \<and> openvas_hosts_count (Some (openvas_hosts_shuffle rand h)) = openvas_hosts_count (Some h)
   \<and> openvas_hosts_removed (Some (openvas_hosts_shuffle rand h)) = openvas_hosts_removed (Some h)
   \<and> current (openvas_hosts_shuffle rand h) = hosts (openvas_hosts_shuffle rand h)"
proof -
  have m: "mset (hosts (openvas_hosts_shuffle rand h)) = mset (hosts h)"
    by (rule mset_hosts_shuffle)
  have "size (mset (hosts (openvas_hosts_shuffle rand h))) = size (mset (hosts h))"
    by (simp only: m)
  then have "length (hosts (openvas_hosts_shuffle rand h)) = length (hosts h)"
    by simp
  then show ?thesis
    using m by (simp add: openvas_hosts_count_def openvas_hosts_removed_def)
      (simp add: openvas_hosts_shuffle_def split_beta)
qed

section \<open>Removing duplicates\<close>


section \<open>A range with inverted limits\<close>

text \<open>
  C1. For the host specification \<^verbatim>\<open>10.0.0.10-10.0.0.5\<close>, \<^verbatim>\<open>removed\<close> stays 0 on every
  platform. \<^verbatim>\<open>is_short_range_network\<close> reads the byte after \<^verbatim>\<open>10\<close> from its freed copy.
  Unless that byte is NUL, the token is a long range with inverted limits: it adds no
  entry and one line is written to \<^verbatim>\<open>stderr\<close>, and the branch leaves the switch without
  incrementing \<^verbatim>\<open>removed\<close>; this is what happens on \<open>glibc_x86_64\<close>. If the byte is NUL,
  the token is taken for the short range from 10.0.0.10 to 10 and adds that one address.
  The branch of an invalid host string, here \<^verbatim>\<open>not a host!!\<close>, writes its line and
  increments \<^verbatim>\<open>removed\<close>.
\<close>

theorem inverted_range_not_counted:
  "openvas_hosts_new pf (Some ''10.0.0.10-10.0.0.5'')
     = (if freed_read pf (cut_copy ''10.0.0.10'' ''10.0.0.5'') 12 = CHR 0x00
        then Some (Some \<lparr>orig_str = ''10.0.0.10-10.0.0.5'', hosts = [ipv4_host 0x0A00000A],
                          current = [ipv4_host 0x0A00000A], removed = 0\<rparr>, [])
        else Some (Some \<lparr>orig_str = ''10.0.0.10-10.0.0.5'', hosts = [], current = [],
                          removed = 0\<rparr>,
                   [''ERROR - 10.0.0.10-10.0.0.5: Inversed limits.\<newline>'']))
   \<and> openvas_hosts_new glibc_x86_64 (Some ''10.0.0.10-10.0.0.5'')
     = Some (Some \<lparr>orig_str = ''10.0.0.10-10.0.0.5'', hosts = [], current = [], removed = 0\<rparr>,
             [''ERROR - 10.0.0.10-10.0.0.5: Inversed limits.\<newline>''])
   \<and> openvas_hosts_new pf (Some ''not a host!!'')
     = Some (Some \<lparr>orig_str = ''not a host!!'', hosts = [], current = [], removed = 1\<rparr>,
             [''ERROR - not a host!!: Invalid host string.\<newline>''])"
  by (simp add: openvas_hosts_new_eq tokens_of_def g_strsplit_def spec_entries_def token_inverted
      token_invalid_example glibc_reads equal_to_earlier_def)

section \<open>The order of iteration\<close>

text \<open>
  When no two entries that the pieces of a host specification contribute are equal, and
  \<^verbatim>\<open>openvas_hosts_new\<close> returns, the list of the collection is the sequence of these
  contributions from left to right (although it was built by prepending and reversed
  once), and successive calls of \<^verbatim>\<open>openvas_hosts_next\<close> return its entries in that
  order and the null pointer from then on. The call returns unless a range or block ends
  at 255.255.255.255.
\<close>

lemma scan_order:
  assumes "no_duplicates (spec_entries pf str)"
  shows "if \<exists>tok\<in>set (tokens_of str). ends_at_max pf tok
         then openvas_hosts_new pf (Some str) = None
         else \<exists>h err. openvas_hosts_new pf (Some str) = Some (Some h, err)
                \<and> hosts h = spec_entries pf str
                \<and> (\<forall>n. next_results n (Some h)
                         = take n (map Some (spec_entries pf str))
                           @ replicate (n - length (spec_entries pf str)) None)"
proof -
  have "first_occurrences [] (spec_entries pf str) = spec_entries pf str"
    using assms by (rule first_occurrences_no_duplicates) (simp add: equal_to_earlier_def)
  then show ?thesis
    by (simp add: openvas_hosts_new_eq next_results_current)
qed

text \<open>
  C7. The host specification \<^verbatim>\<open>255.255.255.254-255.255.255.255\<close> is a range of two
  addresses, which are not equal. On every platform \<^verbatim>\<open>openvas_hosts_new\<close> does not
  return on it: the loop that adds the addresses ends when the counter exceeds the last
  address, and the 32-bit counter wraps around to 0 after 255.255.255.255. There is no
  collection, and no call of \<^verbatim>\<open>openvas_hosts_next\<close> that could return the two entries.
  On \<open>glibc_x86_64\<close> the short range \<^verbatim>\<open>10.0.0.5-7\<close> does not contribute its three
  addresses either: \<^verbatim>\<open>is_short_range_network\<close> reads a byte that is not NUL from its
  freed copy, and the token becomes one entry of the type of a host name.
\<close>

theorem range_to_last_address_never_returns:
  "spec_entries pf ''255.255.255.254-255.255.255.255''
     = [ipv4_host 0xFEFFFFFF, ipv4_host 0xFFFFFFFF]
   \<and> no_duplicates (spec_entries pf ''255.255.255.254-255.255.255.255'')
   \<and> openvas_hosts_new pf (Some ''255.255.255.254-255.255.255.255'') = None
   \<and> openvas_hosts_new glibc_x86_64 (Some ''10.0.0.5-7'')
       = Some (Some \<lparr>orig_str = ''10.0.0.5-7'',
                      hosts = [single_host HOST_TYPE_NAME ''10.0.0.5-7''],
                      current = [single_host HOST_TYPE_NAME ''10.0.0.5-7''],
                      removed = 0\<rparr>, [])"
proof -
  have t: "tokens_of ''255.255.255.254-255.255.255.255'' = [''255.255.255.254-255.255.255.255'']"
    by (simp add: tokens_of_def g_strsplit_def)
  have e: "spec_entries pf ''255.255.255.254-255.255.255.255''
     = [ipv4_host 0xFEFFFFFF, ipv4_host 0xFFFFFFFF]"
    by (simp add: spec_entries_def t token_last_two)
  have n: "no_duplicates [ipv4_host 0xFEFFFFFF, ipv4_host 0xFFFFFFFF]"
    by (simp add: openvas_host_equal_def ipv4_host_def)
  have r: "openvas_hosts_new pf (Some ''255.255.255.254-255.255.255.255'') = None"
    by (simp add: openvas_hosts_new_eq t token_last_two)
  have s: "openvas_hosts_new glibc_x86_64 (Some ''10.0.0.5-7'')
       = Some (Some \<lparr>orig_str = ''10.0.0.5-7'',
                      hosts = [single_host HOST_TYPE_NAME ''10.0.0.5-7''],
                      current = [single_host HOST_TYPE_NAME ''10.0.0.5-7''],
                      removed = 0\<rparr>, [])"
    by (simp add: openvas_hosts_new_eq tokens_of_def g_strsplit_def spec_entries_def token_short
        glibc_reads equal_to_earlier_def)
  show ?thesis
    using e n r s by (simp only: simp_thms)
qed

section \<open>The types of the entries\<close>

text \<open>
  C9. Every entry of the list of a collection that \<^verbatim>\<open>openvas_hosts_new\<close> returns,
  every entry that a call of \<^verbatim>\<open>openvas_hosts_next\<close> returns from it, and every entry
  of the list after \<^verbatim>\<open>openvas_hosts_shuffle\<close>, has the type of a host name, an IPv4
  address or an IPv6 address: \<^verbatim>\<open>openvas_host_type\<close> yields one of these three, and
  \<^verbatim>\<open>openvas_host_value_str\<close> yields the name or the result of \<^verbatim>\<open>inet_ntop\<close>, never
  the string of its default branch. This holds on every platform.
\<close>

theorem entries_have_entry_types:
  assumes "openvas_hosts_new pf (Some str) = Some (Some h, err)"
    and "x \<in> set (hosts h) \<or> Some x \<in> set (next_results n (Some h))
         \<or> x \<in> set (hosts (openvas_hosts_shuffle rand h))"
  shows "type x \<in> {HOST_TYPE_NAME, HOST_TYPE_IPV4, HOST_TYPE_IPV6}
    \<and> openvas_host_type (Some x) \<in> {Some HOST_TYPE_NAME, Some HOST_TYPE_IPV4, Some HOST_TYPE_IPV6}
    \<and> openvas_host_value_str inet_ntop (Some x)
        = (if type x = HOST_TYPE_NAME then Some (name x)
           else if type x = HOST_TYPE_IPV4 then inet_ntop AF_INET (octets_of_word (addr x))
           else inet_ntop AF_INET6 (addr6 x))"
proof -
  have h: "hosts h = first_occurrences [] (spec_entries pf str)"
    and c: "current h = hosts h"
    using assms(1) by (auto simp: openvas_hosts_new_eq split: if_splits)
  have "set (hosts (openvas_hosts_shuffle rand h)) = set (hosts h)"
    using mset_hosts_shuffle [of rand h] by (rule mset_eq_setD)
  then have "x \<in> set (hosts h)"
    using assms(2) set_next_results [of x n h] c by auto
  then have "x \<in> set (spec_entries pf str)"
    using set_first_occurrences [of "[]" "spec_entries pf str"] h by auto
  then have "type x \<in> {HOST_TYPE_NAME, HOST_TYPE_IPV4, HOST_TYPE_IPV6}"
    by (rule type_spec_entries)
  then show ?thesis
    by (auto simp: openvas_host_type_def openvas_host_value_str_def)
qed

text \<open>
  The theorem at the entry 10.0.0.6 of the collection for the host specification
  \<^verbatim>\<open>b.example, 10.0.0.6\<close>, newline, \<^verbatim>\<open>::1\<close>, whose pieces are a name and two address
  literals: no piece reaches a read from a freed block.
\<close>

theorem entries_have_entry_types_witness:
  "type (ipv4_host 0x0600000A) \<in> {HOST_TYPE_NAME, HOST_TYPE_IPV4, HOST_TYPE_IPV6}
   \<and> openvas_host_type (Some (ipv4_host 0x0600000A)) = Some HOST_TYPE_IPV4
   \<and> openvas_host_value_str (\<lambda>family octets. None) (Some (ipv4_host 0x0600000A)) = None"
  using entries_have_entry_types [where pf = glibc_x86_64 and x = "ipv4_host 0x0600000A"
      and n = 0 and rand = "\<lambda>k. 0" and inet_ntop = "\<lambda>family octets. None", OF example_parse]
  by (simp add: ipv4_host_def openvas_host_type_def)

section \<open>Resolution of an entry that is not a name\<close>

text \<open>
  C2. For an entry that is not a name (an IPv4 or an IPv6 entry), \<^verbatim>\<open>openvas_host_resolve\<close>
  returns 0, the value of success, and leaves the buffer as it was, whatever the
  resolver, the buffer and the family are.
\<close>

theorem resolve_address_entry_returns_success:
  assumes "type h \<noteq> HOST_TYPE_NAME"
  shows "openvas_host_resolve getaddrinfo (Some h) dst family = (0, dst)"
  using assms by (simp add: openvas_host_resolve_def)

text \<open>
  C2 at the entry 10.0.0.1, a resolver that would succeed, a buffer of four octets and
  the family \<^verbatim>\<open>AF_INET\<close>.
\<close>

theorem resolve_address_entry_returns_success_witness:
  "openvas_host_resolve (\<lambda>name family. (0, [\<lparr>ai_family = AF_INET, ai_addr = [10, 0, 0, 1]\<rparr>]))
     (Some (ipv4_host 0x0100000A)) (Some [0, 0, 0, 0]) AF_INET = (0, Some [0, 0, 0, 0])"
proof -
  have "type (ipv4_host 0x0100000A) \<noteq> HOST_TYPE_NAME"
    by (simp add: ipv4_host_def)
  then show ?thesis
    by (rule resolve_address_entry_returns_success)
qed

section \<open>The prefix length of a CIDR block\<close>

text \<open>
  C5. \<^verbatim>\<open>is_cidr_block\<close> reads the whole suffix with \<^verbatim>\<open>strtol\<close>, tests the byte after
  its digits in the freed copy, and never counts the digits. The token
  \<^verbatim>\<open>192.168.100.0/024\<close>, whose prefix length is written with three digits, is
  classified as a CIDR block whenever that byte, at the offset 17, is read as the NUL
  that was there; so it is on \<open>glibc_x86_64\<close>. \<^verbatim>\<open>cidr_get_block\<close> then reads two
  characters of the suffix (2), and the block runs from 192.0.0.1 to 255.255.255.254.
  The token \<^verbatim>\<open>10.0.0.0/24\<close>, of the form that the claim describes, is classified as a
  CIDR block only if the byte at the offset 11 of the freed copy is read as NUL; on
  \<open>glibc_x86_64\<close> it is not, and the token is not classified at all. The suffixes 0, 31,
  32 and a three-digit number above 30 are classified on no platform.
\<close>

theorem prefix_length_classification:
  "determine_host_type pf ''192.168.100.0/024''
     = (if freed_read pf (cut_copy ''192.168.100.0'' ''024'') 17 = CHR 0x00
        then Some HOST_TYPE_CIDR_BLOCK else None)
   \<and> determine_host_type glibc_x86_64 ''192.168.100.0/024'' = Some HOST_TYPE_CIDR_BLOCK
   \<and> cidr_get_block ''192.168.100.0/024'' = Some 2
   \<and> (\<exists>first last'. cidr_block_ips pf ''192.168.100.0/024'' = Some (first, last')
         \<and> ntohl first = 0xC0000001 \<and> ntohl last' = 0xFFFFFFFE)
   \<and> determine_host_type pf ''10.0.0.0/24''
     = (if freed_read pf (cut_copy ''10.0.0.0'' ''24'') 11 = CHR 0x00
        then Some HOST_TYPE_CIDR_BLOCK else None)
   \<and> determine_host_type glibc_x86_64 ''10.0.0.0/24'' = None
   \<and> determine_host_type pf ''10.0.0.0/0'' = None
   \<and> determine_host_type pf ''10.0.0.0/31'' = None
   \<and> determine_host_type pf ''10.0.0.0/32'' = None
   \<and> determine_host_type pf ''10.0.0.0/124'' = None"
proof -
  have "cidr_get_block ''192.168.100.0/024'' = Some 2"
    by (simp add: cidr_get_block_def sscanf_cidr_def dec_val_def char_defs Let_def)
  then show ?thesis
    by (simp add: type_three_digits cidr_suffixes glibc_reads ips_three_digits ntohl_htonl)
qed

section \<open>Resolution of a name\<close>



section \<open>The expansion of a CIDR block\<close>

text \<open>
  C4. Let \<open>a\<close> be an IPv4 literal with the address \<open>A\<close>, and \<open>ds\<close> one or two
  digits whose value \<open>p\<close> is between 1 and 30. \<^verbatim>\<open>is_cidr_block\<close> tests the byte after
  the digits, the terminating NUL of its copy of the token, after it has freed the
  copy. If the byte is still read as NUL, \<^verbatim>\<open>openvas_hosts_new\<close> on the token \<open>a/ds\<close>
  returns a collection with exactly \<open>2^(32-p) - 2\<close> entries, all IPv4, whose addresses
  in host byte order are \<open>(A & mask(p)) + 1\<close>, \<open>(A & mask(p)) + 2\<close>, ... up to
  \<open>(A & mask(p)) + 2^(32-p) - 2\<close>, in this order; nothing is rejected and nothing is
  written to \<^verbatim>\<open>stderr\<close>. If the byte is read as anything else, the token is an invalid
  host string: the collection is empty, \<^verbatim>\<open>removed\<close> is 1 and one line is written.
\<close>

theorem cidr_block_expansion:
  assumes "inet_pton4 a = Some A"
    and "ds \<noteq> []" and "length ds \<le> 2" and "\<forall>c\<in>set ds. isdigit c"
    and "1 \<le> dec_val ds" and "dec_val ds \<le> 30"
  shows "openvas_hosts_new pf (Some (a @ ''/'' @ ds))
        = (if freed_read pf (cut_copy a ds) (length a + 1 + length ds) = CHR 0x00
           then Some (Some \<lparr>orig_str = a @ ''/'' @ ds,
                             hosts = cidr_entries A (dec_val ds),
                             current = cidr_entries A (dec_val ds),
                             removed = 0\<rparr>, [])
           else Some (Some \<lparr>orig_str = a @ ''/'' @ ds, hosts = [], current = [],
                             removed = 1\<rparr>,
                      [''ERROR - '' @ a @ ''/'' @ ds @ '': Invalid host string.\<newline>'']))
    \<and> length (cidr_entries A (dec_val ds)) = 2 ^ (32 - dec_val ds) - 2
    \<and> (\<forall>k < 2 ^ (32 - dec_val ds) - 2.
          type (cidr_entries A (dec_val ds) ! k) = HOST_TYPE_IPV4
          \<and> unat (ntohl (addr (cidr_entries A (dec_val ds) ! k)))
              = unat (ntohl A AND cidr_mask (dec_val ds)) + 1 + k)"
proof -
  let ?s = "a @ CHR ''/'' # ds"
  let ?p = "dec_val ds"
  let ?N = "ntohl A AND cidr_mask ?p"
  let ?first = "htonl (?N + 1)"
  let ?last = "htonl (?N + 2 ^ (32 - ?p) - 2)"
  let ?nul = "freed_read pf (cut_copy a ds) (length a + 1 + length ds) = CHR 0x00"
  have dsd: "\<And>c. c \<in> set ds \<Longrightarrow> isdigit c" using assms(4) by blast
  note tok = cidr_token [OF assms(1,2,3) dsd assms(5,6)]
  note u = cidr_limits_unat(1-3) [OF assms(5,6), of "ntohl A"] cidr_limits_unat(4) [OF assms(5,6)]
  have le: "\<not> ntohl ?last < ntohl ?first"
    using u(4) by (simp add: ntohl_htonl word_less_nat_alt u(1,2))
  have "unat (ntohl ?last) \<noteq> unat (- 1 :: 32 word)"
    using u(3,4) by (simp add: ntohl_htonl u(1) unsigned_minus_1_eq_mask mask_eq_exp_minus_1)
  then have nm: "ntohl ?last \<noteq> - 1" by auto
  have te: "token_entries pf ?s = (if ?nul then cidr_entries A ?p else [])"
    using le by (simp add: token_entries_def tok ips_func_def cidr_ascending [OF assms(5,6)])
  have em: "\<not> ends_at_max pf ?s"
    using nm by (simp add: ends_at_max_def tok ips_func_def)
  have ti: "token_invalid pf ?s \<longleftrightarrow> \<not> ?nul" by (simp add: token_invalid_def tok)
  have td: "token_diagnostics pf ?s
      = (if ?nul then [] else [''ERROR - '' @ ?s @ '': Invalid host string.\<newline>''])"
    using le by (simp add: token_diagnostics_def tok ips_func_def)
  have "no_duplicates (cidr_entries A ?p)"
    using no_duplicates_ascending_hosts [of ?first ?last]
    by (simp only: cidr_ascending [OF assms(5,6)])
  then have fo: "first_occurrences [] (cidr_entries A ?p) = cidr_entries A ?p"
    by (rule first_occurrences_no_duplicates) (simp add: equal_to_earlier_def)
  have nl: "map (\<lambda>c. if c = CHR 0x0A then CHR '','' else c) a = a
      \<and> map (\<lambda>c. if c = CHR 0x0A then CHR '','' else c) ds = ds"
    using tok(5) by simp
  have parse: "openvas_hosts_new pf (Some ?s)
        = (if ?nul
           then Some (Some \<lparr>orig_str = ?s, hosts = cidr_entries A ?p,
                             current = cidr_entries A ?p, removed = 0\<rparr>, [])
           else Some (Some \<lparr>orig_str = ?s, hosts = [], current = [], removed = 1\<rparr>,
                      [''ERROR - '' @ ?s @ '': Invalid host string.\<newline>'']))"
    by (simp add: openvas_hosts_new_eq tok(2) em spec_entries_def te fo ti td nl)
  have len: "length (cidr_entries A ?p) = 2 ^ (32 - ?p) - 2"
    by (simp add: cidr_entries_def)
  have nth: "type (cidr_entries A ?p ! k) = HOST_TYPE_IPV4
          \<and> unat (ntohl (addr (cidr_entries A ?p ! k))) = unat ?N + 1 + k"
    if "k < 2 ^ (32 - ?p) - 2" for k
  proof -
    have "unat (?N + of_nat (1 + k)) = unat ?N + (1 + k)"
      using that u(3) by (intro unat_add_of_nat) simp
    moreover have "[1 ..< 2 ^ (32 - ?p) - 1] ! k = 1 + k"
      using that by (intro nth_upt) simp
    moreover have "k < length [1 ..< 2 ^ (32 - ?p) - 1]"
      using that by simp
    ultimately show ?thesis
      by (simp add: cidr_entries_def ipv4_host_def ntohl_htonl del: upt_Suc)
  qed
  show ?thesis
    using parse len nth by simp
qed

text \<open>
  C4 at the host specification \<^verbatim>\<open>10.0.0.0/24\<close>. On \<open>glibc_x86_64\<close> the byte at
  the offset 11 of the freed copy is not NUL: the collection is empty and \<^verbatim>\<open>removed\<close>
  is 1. On \<open>keeping_x86_64\<close>, where a freed block keeps its bytes, the collection holds
  the 254 entries 10.0.0.1 to 10.0.0.254.
\<close>

theorem cidr_block_expansion_witness:
  "openvas_hosts_new glibc_x86_64 (Some ''10.0.0.0/24'')
     = Some (Some \<lparr>orig_str = ''10.0.0.0/24'', hosts = [], current = [], removed = 1\<rparr>,
             [''ERROR - 10.0.0.0/24: Invalid host string.\<newline>''])
   \<and> openvas_hosts_new keeping_x86_64 (Some ''10.0.0.0/24'')
     = Some (Some \<lparr>orig_str = ''10.0.0.0/24'',
                    hosts = map (\<lambda>k. ipv4_host (htonl (0x0A000000 + of_nat k))) [1 ..< 255],
                    current = map (\<lambda>k. ipv4_host (htonl (0x0A000000 + of_nat k))) [1 ..< 255],
                    removed = 0\<rparr>, [])
   \<and> length (map (\<lambda>k. ipv4_host (htonl (0x0A000000 + of_nat k))) [1 ..< 255]) = 254
   \<and> map (\<lambda>k. ipv4_host (htonl (0x0A000000 + of_nat k))) [1 ..< 255] ! 0 = ipv4_host 0x0100000A
   \<and> map (\<lambda>k. ipv4_host (htonl (0x0A000000 + of_nat k))) [1 ..< 255] ! 253 = ipv4_host 0xFE00000A"
proof -
  have d: "\<forall>c\<in>set ''24''. isdigit c" by (simp add: char_defs)
  have k: "freed_read keeping_x86_64 (cut_copy ''10.0.0.0'' ''24'') 11 = CHR 0x00"
    by (simp add: keeping_x86_64_def cut_copy_def)
  have "htonl (0x0A000000 + 1) = 0x0100000A" "htonl (0x0A000000 + 254) = 0xFE00000A"
    by (simp_all add: htonl_def)
  then show ?thesis
    using cidr_block_expansion [of "''10.0.0.0''" "0x0000000A" "''24''" glibc_x86_64,
        OF pton4_10_0_0_0 _ _ d]
      cidr_block_expansion [of "''10.0.0.0''" "0x0000000A" "''24''" keeping_x86_64,
        OF pton4_10_0_0_0 _ _ d]
    by (simp add: dec_val_24 cidr_entries_10_0_0_0_24 glibc_reads k flip: numeral_2_eq_2)
qed

end
